theory Spec2Isabelle
  imports Complex_Main "HOL-Library.Word" "HOL-Library.Multiset" "HOL-Library.Sublist"
    "HOL-Library.Char_ord" "HOL-Library.List_Lexorder"
begin

section \<open>Data model of \<open>mdb/loginfo.go\<close>\<close>

text \<open>
  Go's \<open>int\<close> is modelled as a 64-bit word, its size on the 64-bit platforms: \<open>+\<close> wraps
  around, and the comparisons of the source are the signed ones (\<open><s\<close>). A Go \<open>string\<close>
  is a sequence of bytes, here a \<open>string\<close> (a list of \<open>char\<close>); indices into strings are
  \<open>int\<close>, as no index of the program leaves the range of a machine integer.
\<close>

type_synonym goint = "64 word"

text \<open>
  The struct \<open>LogInfoLineAnalytics\<close>, the record rendered for one shape. Its fields
  \<open>Namespace\<close>, \<open>Command\<close> and \<open>Count\<close> share their names with fields of
  \<open>OpPerformanceDoc\<close> and are written with the record's name in front.
  \<open>AvgMilliseconds\<close> is a \<open>float64\<close>; the model keeps the two integers whose conversions
  the source divides, and does not carry out the floating-point division.
\<close>

record LogInfoLineAnalytics =
  Namespace :: string
  Command :: string
  QueryPattern :: string
  Count :: goint
  MinMilliseconds :: goint
  MaxMilliseconds :: goint
  AvgMilliseconds :: "goint \<times> goint"
  TotalMilliseconds :: goint
  IsCollectionScan :: bool
  IndexUsed :: string

text \<open>The struct \<open>OpPerformanceDoc\<close> (one aggregated query shape).\<close>

record OpPerformanceDoc =
  Command :: string
  Count :: goint
  Filter :: string
  MaxMilli :: goint
  Namespace :: string
  Scan :: string
  TotalMilli :: goint
  Index :: string

text \<open>The struct \<open>SlowOps\<close> (one slow operation: its duration and its raw log line).\<close>

record SlowOps =
  Milli :: goint
  Log :: string

text \<open>
  The struct \<open>LogInfo\<close>. The first three fields are exported (upper case), the other five
  are not.
\<close>

record LogInfo =
  OpsPatterns :: "OpPerformanceDoc list"
  OutputFilename :: string
  SlowOps :: "SlowOps list"
  collscan :: bool
  filename :: string
  mongoInfo :: string
  silent :: bool
  verbose :: bool

definition COLLSCAN :: string where
  "COLLSCAN = ''COLLSCAN''"

text \<open>The run-time panics of Go that the functions below can raise.\<close>

datatype panic = SliceBoundsOutOfRange | IndexOutOfRange

section \<open>Functions of Go's package \<open>strings\<close>\<close>

text \<open>
  \<open>strings.Index(s, substr)\<close>: the index of the first instance of \<open>substr\<close> in \<open>s\<close>, or
  \<open>-1\<close> when there is none.
\<close>

fun strings_Index :: "string \<Rightarrow> string \<Rightarrow> int" where
  "strings_Index s substr =
     (if prefix substr s then 0
      else case s of
        [] \<Rightarrow> - 1
      | c # t \<Rightarrow> (let r = strings_Index t substr in if r < 0 then - 1 else r + 1))"

declare strings_Index.simps [simp del]

text \<open>\<open>strings.HasSuffix(s, suffix)\<close>.\<close>

definition strings_HasSuffix :: "string \<Rightarrow> string \<Rightarrow> bool" where
  "strings_HasSuffix s suf = suffix suf s"

text \<open>
  \<open>strings.ReplaceAll(s, old, new)\<close>, which is \<open>strings.Replace(s, old, new, -1)\<close>: the
  instances of \<open>old\<close> that do not overlap, found from the left, are replaced by \<open>new\<close>.
  The program never passes an empty \<open>old\<close>; for it the model returns \<open>s\<close>.
\<close>

function strings_ReplaceAll :: "string \<Rightarrow> string \<Rightarrow> string \<Rightarrow> string" where
  "strings_ReplaceAll s old new =
     (if s = [] \<or> old = [] then s
      else if prefix old s then new @ strings_ReplaceAll (drop (length old) s) old new
      else hd s # strings_ReplaceAll (tl s) old new)"
  by pat_completeness auto
termination
  by (relation "measure (\<lambda>(s, old, new). length s)") auto

declare strings_ReplaceAll.simps [simp del]

section \<open>The slow-op list (\<open>Parse\<close>, lines 498 to 506)\<close>

text \<open>
  The closure handed to \<open>sort.Slice\<close>: position \<open>i\<close> goes before position \<open>j\<close> when
  \<open>li.SlowOps[i].Milli > li.SlowOps[j].Milli\<close>.
\<close>

definition SlowOps_less :: "SlowOps \<Rightarrow> SlowOps \<Rightarrow> bool" where
  "SlowOps_less a b = (Milli b <s Milli a)"

text \<open>
  \<open>sort.Slice\<close> belongs to Go's standard library. Its documentation promises that the slice
  is sorted as the \<open>less\<close> function says and that it holds the same elements, and states
  that the sort is not guaranteed to be stable. The list functions that keep this promise:
\<close>

definition sort_Slice_spec :: "('a \<Rightarrow> 'a \<Rightarrow> bool) \<Rightarrow> ('a list \<Rightarrow> 'a list) \<Rightarrow> bool" where
  "sort_Slice_spec lt srt =
     (\<forall>xs. mset (srt xs) = mset xs \<and> sorted_wrt (\<lambda>a b. \<not> lt b a) (srt xs))"

text \<open>
  The body of \<open>if len(li.SlowOps) < 10 || milli > li.SlowOps[9].Milli\<close>, with the library's
  \<open>sort.Slice\<close> (already given the closure above) as the parameter \<open>srt\<close>. The index 9 is
  read only when the list has at least 10 entries, as \<open>||\<close> evaluates its right side only
  when the left side is false.
\<close>

definition Parse_SlowOps :: "(SlowOps list \<Rightarrow> SlowOps list) \<Rightarrow> SlowOps list \<Rightarrow> goint \<Rightarrow> string \<Rightarrow> SlowOps list" where
  "Parse_SlowOps srt ops milli str =
     (if length ops < 10 \<or> Milli (ops ! 9) <s milli then
        (let ops' = srt (ops @ [\<lparr>Milli = milli, Log = str\<rparr>])
         in if length ops' > 10 then take 10 ops' else ops')
      else ops)"

text \<open>
  A parse run considers the qualifying lines one after the other, starting from the empty
  list of \<open>NewLogInfo\<close>.
\<close>

definition SlowOps_run :: "(SlowOps list \<Rightarrow> SlowOps list) \<Rightarrow> (goint \<times> string) list \<Rightarrow> SlowOps list" where
  "SlowOps_run srt es = foldl (\<lambda>ops (milli, str). Parse_SlowOps srt ops milli str) [] es"

text \<open>Sorted in descending order of \<open>Milli\<close>.\<close>

definition SlowOps_desc :: "SlowOps list \<Rightarrow> bool" where
  "SlowOps_desc ops = sorted_wrt (\<lambda>a b. Milli b \<le>s Milli a) ops"


subsection \<open>The sort of small slices\<close>

text \<open>
  For a slice of at most 12 elements \<open>sort.Slice\<close> (Go 1.19 and later) runs \<open>insertionSort\<close>
  alone, and the list above never has more than 11 entries when it is sorted:
  \<^verbatim>\<open>for i := a + 1; i < b; i++ {
    for j := i; j > a && data.Less(j, j-1); j-- { data.Swap(j, j-1) } }\<close>
  The element at \<open>i\<close> moves left while it is less than its left neighbour.
  \<open>insertionSort_ins\<close> does this on the sorted prefix held in reverse (the left neighbour
  first).
\<close>

fun insertionSort_ins :: "('a \<Rightarrow> 'a \<Rightarrow> bool) \<Rightarrow> 'a \<Rightarrow> 'a list \<Rightarrow> 'a list" where
  "insertionSort_ins lt x [] = [x]"
| "insertionSort_ins lt x (y # ys) = (if lt x y then y # insertionSort_ins lt x ys else x # y # ys)"

definition insertionSort :: "('a \<Rightarrow> 'a \<Rightarrow> bool) \<Rightarrow> 'a list \<Rightarrow> 'a list" where
  "insertionSort lt xs = rev (foldl (\<lambda>acc x. insertionSort_ins lt x acc) [] xs)"


section \<open>The shape map (\<open>Parse\<close>, lines 331 to 334 and 495 to 518)\<close>

text \<open>
  Lines 331 to 334: \<open>scan\<close> starts as the empty string and becomes \<open>COLLSCAN\<close> when the
  reassembled line \<open>str\<close> contains that text. Nothing assigns \<open>scan\<close> afterwards.
\<close>

definition Parse_scan :: "string \<Rightarrow> string" where
  "Parse_scan str = (if strings_Index str ''COLLSCAN'' \<ge> 0 then COLLSCAN else '''')"

text \<open>
  A qualifying line (one that reaches line 495), as the values that the local variables
  \<open>str\<close>, \<open>op\<close>, \<open>ns\<close>, \<open>filter\<close>, \<open>index\<close> and \<open>milli\<close> hold there, after
  \<open>filter += aggStages\<close>.
\<close>

record qline =
  q_str :: string
  q_op :: string
  q_ns :: string
  q_filter :: string
  q_index :: string
  q_milli :: goint

text \<open>Line 495: \<open>key := op + "." + filter + "." + scan\<close>.\<close>

definition Parse_key :: "qline \<Rightarrow> string" where
  "Parse_key l = q_op l @ ''.'' @ q_filter l @ ''.'' @ Parse_scan (q_str l)"

text \<open>Lines 496 and 508 to 518: the update of \<open>opsMap\<close>.\<close>

definition Parse_opsMap :: "(string \<rightharpoonup> OpPerformanceDoc) \<Rightarrow> qline \<Rightarrow> (string \<rightharpoonup> OpPerformanceDoc)" where
  "Parse_opsMap opsMap l =
     (let key = Parse_key l; milli = q_milli l; scan = Parse_scan (q_str l) in
      case opsMap key of
        Some d \<Rightarrow>
          (let mx = (if MaxMilli d <s milli then milli else MaxMilli d);
               x = TotalMilli d + milli;
               y = Count d + 1
           in opsMap(key \<mapsto> \<lparr>Command = Command d, Count = y, Filter = Filter d, MaxMilli = mx,
                 Namespace = q_ns l, Scan = scan, TotalMilli = x, Index = q_index l\<rparr>))
      | None \<Rightarrow>
          opsMap(key \<mapsto> \<lparr>Command = q_op l, Count = 1, Filter = q_filter l, MaxMilli = milli,
              Namespace = q_ns l, Scan = scan, TotalMilli = milli, Index = q_index l\<rparr>))"

text \<open>The map after the qualifying lines of a run, starting from the empty map of line 286.\<close>

definition opsMap_run :: "qline list \<Rightarrow> (string \<rightharpoonup> OpPerformanceDoc)" where
  "opsMap_run ls = foldl Parse_opsMap Map.empty ls"

section \<open>Rendering (lines 167 to 183 and 553 to 558)\<close>

text \<open>
  \<open>ConverOpPerformanceDocumentToLogInfoLineAnalytics\<close> starts from the zero value
  \<open>LogInfoLineAnalytics{}\<close> and assigns seven of its ten fields (\<open>IndexUsed\<close> only when
  \<open>value.Index\<close> is not empty). \<open>MinMilliseconds\<close> and \<open>MaxMilliseconds\<close> are never assigned
  and keep the zero of the zero value.
\<close>

definition ConverOpPerformanceDocumentToLogInfoLineAnalytics :: "OpPerformanceDoc \<Rightarrow> LogInfoLineAnalytics" where
  "ConverOpPerformanceDocumentToLogInfoLineAnalytics value =
     \<lparr>LogInfoLineAnalytics.Namespace = Namespace value,
      LogInfoLineAnalytics.Command = Command value,
      QueryPattern = Filter value,
      LogInfoLineAnalytics.Count = Count value,
      MinMilliseconds = 0,
      MaxMilliseconds = 0,
      AvgMilliseconds = (TotalMilli value, Count value),
      TotalMilliseconds = TotalMilli value,
      IsCollectionScan = (Scan value = COLLSCAN),
      IndexUsed = (if Index value \<noteq> '''' then Index value else '''')\<rparr>"

text \<open>The loop of \<open>printLogsSummary\<close>: one record for each element of \<open>li.OpsPatterns\<close>, in order.\<close>

definition printLogsSummary_lines :: "LogInfo \<Rightarrow> LogInfoLineAnalytics list" where
  "printLogsSummary_lines li = map ConverOpPerformanceDocumentToLogInfoLineAnalytics (OpsPatterns li)"

text \<open>
  The lines of a run that have a given key, and the statistics of these lines \<open>os\<close> (not
  empty) as an entry holds them: command and filter of the first line, the number of lines
  as count, the sum of their durations, the greatest duration, and namespace, index and scan
  of the last line.
\<close>

definition shape_lines :: "string \<Rightarrow> qline list \<Rightarrow> qline list" where
  "shape_lines k ls = filter (\<lambda>l. Parse_key l = k) ls"

definition shape_stats :: "qline list \<Rightarrow> OpPerformanceDoc \<Rightarrow> bool" where
  "shape_stats os d =
     (Command d = q_op (hd os) \<and> Filter d = q_filter (hd os) \<and>
      Count d = of_nat (length os) \<and> TotalMilli d = sum_list (map q_milli os) \<and>
      MaxMilli d \<in> q_milli ` set os \<and> (\<forall>l\<in>set os. q_milli l \<le>s MaxMilli d) \<and>
      Namespace d = q_ns (last os) \<and> Index d = q_index (last os) \<and>
      Scan d = Parse_scan (q_str (last os)))"


section \<open>Example lines\<close>

text \<open>
  Two \<open>find\<close> lines on \<open>db.users\<close> with the same shape, of 120 ms and 80 ms, served by an
  index.
\<close>

definition example_find_120 :: qline where
  "example_find_120 =
     \<lparr>q_str = ''2019-01-01T00:00:00.000+0000 I COMMAND [conn1] command db.users command: find { find: 1, filter: { age: 30 } } planSummary: IXSCAN { age: 1 } 120ms'',
      q_op = ''find'', q_ns = ''db.users'', q_filter = ''{age: 1}'', q_index = ''{ age: 1 }'',
      q_milli = 120\<rparr>"

definition example_find_80 :: qline where
  "example_find_80 =
     \<lparr>q_str = ''2019-01-01T00:00:01.000+0000 I COMMAND [conn2] command db.users command: find { find: 1, filter: { age: 55 } } planSummary: IXSCAN { age: 1 } 80ms'',
      q_op = ''find'', q_ns = ''db.users'', q_filter = ''{age: 1}'', q_index = ''{ age: 1 }'',
      q_milli = 80\<rparr>"

text \<open>A \<open>find\<close> line served by an index whose filter holds the text \<open>COLLSCAN\<close> as a value.\<close>

definition example_literal :: qline where
  "example_literal =
     \<lparr>q_str = ''2019-01-01T00:00:03.000+0000 I COMMAND [conn4] command db.users command: find { find: 1, filter: { tag: COLLSCAN } } planSummary: IXSCAN { tag: 1 } 5ms'',
      q_op = ''find'', q_ns = ''db.users'', q_filter = ''{tag: COLLSCAN}'', q_index = ''{ tag: 1 }'',
      q_milli = 5\<rparr>"

text \<open>Ten slow operations, in the order in which a run considers them.\<close>

definition example_ten :: "(goint \<times> string) list" where
  "example_ten = [(10, ''a''), (20, ''b''), (30, ''c''), (40, ''d''), (50, ''e''), (60, ''f''),
     (70, ''g''), (80, ''h''), (90, ''i''), (100, ''j'')]"


section \<open>The cache artifact (\<open>NewLogInfo\<close> and \<open>Analyze\<close>)\<close>

text \<open>
  \<open>filepath.Base\<close> of Go's standard library, for the separator \<open>/\<close>: the last element of
  the path, after the trailing separators are removed; \<open>.\<close> for the empty path and \<open>/\<close>
  for a path of separators only.
\<close>

definition filepath_Base :: "string \<Rightarrow> string" where
  "filepath_Base path =
     (if path = [] then ''.''
      else (let p = rev (dropWhile (\<lambda>c. c = CHR ''/'') (rev path));
                e = rev (takeWhile (\<lambda>c. c \<noteq> CHR ''/'') (rev p))
            in if e = [] then ''/'' else e))"

text \<open>\<open>NewLogInfo\<close>; the parameter \<open>exportType\<close> is not used by the source.\<close>

definition NewLogInfo :: "string \<Rightarrow> string \<Rightarrow> LogInfo" where
  "NewLogInfo fname exportType =
     (let out = filepath_Base fname;
          out = (if strings_HasSuffix out ''.gz'' then take (length out - 3) out else out)
      in \<lparr>OpsPatterns = [], OutputFilename = out @ ''.enc'', SlowOps = [], collscan = False,
          filename = fname, mongoInfo = '''', silent = False, verbose = False\<rparr>)"

text \<open>
  \<open>encoding/gob\<close> belongs to Go's standard library. Its documentation states that structs
  encode and decode only their exported fields, and that a field holding the zero value of
  its type is left out of the transmission; a decoder leaves a field that was not
  transmitted as the receiver has it. Of a \<open>LogInfo\<close> the encoder therefore sees
  \<open>OpsPatterns\<close>, \<open>OutputFilename\<close> and \<open>SlowOps\<close> only. The artifact is modelled as the value
  transmitted (\<open>None\<close> for a field left out), not as its bytes. \<open>gob_Decode\<close> is for a
  receiver whose two slices are empty, as \<open>NewLogInfo\<close> leaves them.
\<close>

record gob_LogInfo =
  gob_OpsPatterns :: "OpPerformanceDoc list option"
  gob_OutputFilename :: "string option"
  gob_SlowOps :: "SlowOps list option"

definition gob_Encode :: "LogInfo \<Rightarrow> gob_LogInfo" where
  "gob_Encode li =
     \<lparr>gob_OpsPatterns = (if OpsPatterns li = [] then None else Some (OpsPatterns li)),
      gob_OutputFilename = (if OutputFilename li = [] then None else Some (OutputFilename li)),
      gob_SlowOps = (if SlowOps li = [] then None else Some (SlowOps li))\<rparr>"

definition gob_Decode :: "gob_LogInfo \<Rightarrow> LogInfo \<Rightarrow> LogInfo" where
  "gob_Decode g li =
     li\<lparr>OpsPatterns := (case gob_OpsPatterns g of None \<Rightarrow> OpsPatterns li | Some v \<Rightarrow> v),
        OutputFilename := (case gob_OutputFilename g of None \<Rightarrow> OutputFilename li | Some v \<Rightarrow> v),
        SlowOps := (case gob_SlowOps g of None \<Rightarrow> SlowOps li | Some v \<Rightarrow> v)\<rparr>"

text \<open>
  \<open>Analyze\<close>, lines 269 to 274: after a successful \<open>Parse\<close> the encoding of \<open>li\<close> is written
  to the file \<open>li.OutputFilename\<close>.
\<close>

definition Analyze_write :: "LogInfo \<Rightarrow> string \<times> gob_LogInfo" where
  "Analyze_write li = (OutputFilename li, gob_Encode li)"

text \<open>
  \<open>Analyze\<close>, lines 254 to 264: for a file name ending in \<open>.enc\<close> the artifact read from
  that file is decoded into \<open>li\<close>, and \<open>li.OutputFilename\<close> is set to the empty string.
\<close>

definition Analyze_read :: "gob_LogInfo \<Rightarrow> LogInfo \<Rightarrow> LogInfo" where
  "Analyze_read g li = (gob_Decode g li)\<lparr>OutputFilename := ''''\<rparr>"

text \<open>
  A \<open>LogInfo\<close> after \<open>Parse\<close>, for the file \<open>mongod.log\<close> that holds the line
  \<open>2019-01-01T00:00:00.000+0000 I CONTROL [initandlisten] db version v4.0.0\<close> (which
  \<open>getConfigOptions\<close> collects as \<open>db version v4.0.0\<close>; \<open>mongoInfo\<close> is each collected
  string followed by a newline) and the two example lines of 120 ms and 80 ms.
\<close>

definition example_parsed :: LogInfo where
  "example_parsed =
     \<lparr>OpsPatterns = [\<lparr>Command = ''find'', Count = 2, Filter = ''{age: 1}'', MaxMilli = 120,
          Namespace = ''db.users'', Scan = '''', TotalMilli = 200, Index = ''{ age: 1 }''\<rparr>],
      OutputFilename = ''mongod.log.enc'',
      SlowOps = [\<lparr>Milli = 120, Log = q_str example_find_120\<rparr>, \<lparr>Milli = 80, Log = q_str example_find_80\<rparr>],
      collscan = False, filename = ''mongod.log'',
      mongoInfo = ''db version v4.0.0'' @ [CHR 0x0A],
      silent = False, verbose = False\<rparr>"

section \<open>The order of the report (\<open>Parse\<close>, lines 522 to 528)\<close>

text \<open>
  The closure handed to \<open>sort.Slice\<close> at line 526 compares
  \<open>float64(TotalMilli)/float64(Count)\<close> of two entries with \<open>>\<close>. The conversions and the
  division of \<open>float64\<close> are not modelled: \<open>fdiv t c\<close> stands for \<open>float64(t)/float64(c)\<close>
  and is a parameter with values in a linear order (\<open>Count\<close> is at least 1 in every entry,
  so the quotients are numbers, and \<open><\<close> orders the numbers of \<open>float64\<close> linearly).
\<close>

definition OpsPatterns_less :: "(goint \<Rightarrow> goint \<Rightarrow> 'f::linorder) \<Rightarrow> OpPerformanceDoc \<Rightarrow> OpPerformanceDoc \<Rightarrow> bool" where
  "OpsPatterns_less fdiv a b = (fdiv (TotalMilli b) (Count b) < fdiv (TotalMilli a) (Count a))"

text \<open>
  Lines 522 to 528: \<open>li.OpsPatterns\<close> becomes the values of \<open>opsMap\<close>, appended in the order
  of the \<open>range\<close> loop (which Go leaves open; \<open>vals\<close> is that sequence) and then sorted by
  \<open>sort.Slice\<close> with the closure above (the parameter \<open>srt\<close>).
\<close>

definition Parse_OpsPatterns :: "(OpPerformanceDoc list \<Rightarrow> OpPerformanceDoc list) \<Rightarrow> OpPerformanceDoc list \<Rightarrow> LogInfo \<Rightarrow> LogInfo" where
  "Parse_OpsPatterns srt vals li = li\<lparr>OpsPatterns := srt vals\<rparr>"

text \<open>The average latency of a rendered record: the quotient that \<open>AvgMilliseconds\<close> holds.\<close>

definition average :: "(goint \<Rightarrow> goint \<Rightarrow> 'f) \<Rightarrow> LogInfoLineAnalytics \<Rightarrow> 'f" where
  "average fdiv r = fdiv (fst (AvgMilliseconds r)) (snd (AvgMilliseconds r))"

text \<open>
  For the examples: the exact quotient as an instance of \<open>fdiv\<close>, and the entry of a
  second shape, one line of 300 ms.
\<close>

definition exact_quotient :: "goint \<Rightarrow> goint \<Rightarrow> real" where
  "exact_quotient t c = real_of_int (sint t) / real_of_int (sint c)"

definition example_scan_doc :: OpPerformanceDoc where
  "example_scan_doc =
     \<lparr>Command = ''find'', Count = 1, Filter = ''{tag: 1}'', MaxMilli = 300,
       Namespace = ''db.users'', Scan = ''COLLSCAN'', TotalMilli = 300, Index = ''''\<rparr>"

section \<open>Filter extraction and canonicalization (\<open>Parse\<close>, lines 381 to 494)\<close>

subsection \<open>Runes\<close>

text \<open>
  \<open>for _, r := range str\<close> walks the runes of a string, not its bytes: each step decodes one
  UTF-8 sequence of 1 to 4 bytes, and a byte that starts no valid sequence is a rune of
  width 1. \<open>utf8_width\<close> is the width of the first rune, by the table of Go's package
  \<open>unicode/utf8\<close>; \<open>utf8_runes\<close> cuts a string into the bytes of its runes.
\<close>

definition utf8_in :: "char \<Rightarrow> nat \<Rightarrow> nat \<Rightarrow> bool" where
  "utf8_in c lo hi = (lo \<le> of_char c \<and> (of_char c :: nat) \<le> hi)"

fun utf8_width :: "string \<Rightarrow> nat" where
  "utf8_width [] = 0"
| "utf8_width (c0 # s) =
     (let b0 = (of_char c0 :: nat) in
      if b0 < 0x80 then 1
      else if b0 < 0xC2 \<or> 0xF4 < b0 then 1
      else
        (let sz = (if b0 < 0xE0 then 2 else if b0 < 0xF0 then 3 else 4 :: nat);
             lo = (if b0 = 0xE0 then 0xA0 else if b0 = 0xF0 then 0x90 else 0x80 :: nat);
             hi = (if b0 = 0xED then 0x9F else if b0 = 0xF4 then 0x8F else 0xBF :: nat)
         in if length s + 1 < sz then 1
            else if \<not> utf8_in (s ! 0) lo hi then 1
            else if sz \<le> 2 then 2
            else if \<not> utf8_in (s ! 1) 0x80 0xBF then 1
            else if sz \<le> 3 then 3
            else if \<not> utf8_in (s ! 2) 0x80 0xBF then 1
            else 4))"

lemma utf8_width_pos: "s \<noteq> [] \<Longrightarrow> 0 < utf8_width s"
  by (cases s) (simp_all add: Let_def)

declare utf8_width.simps [simp del]

function utf8_runes :: "string \<Rightarrow> string list" where
  "utf8_runes s = (if s = [] then [] else take (utf8_width s) s # utf8_runes (drop (utf8_width s) s))"
  by pat_completeness auto
termination
  by (relation "measure length") (auto simp: utf8_width_pos)

declare utf8_runes.simps [simp del]

subsection \<open>\<open>removeInElements\<close> (lines 565 to 591)\<close>

text \<open>
  The loop of \<open>removeInElements\<close>: \<open>cnt\<close> counts runes; the runes up to index \<open>idx\<close> are
  skipped, and the result is the value of \<open>cnt\<close> at the first \<open>]\<close> after them (one less
  than the rune index of that \<open>]\<close>), or \<open>-1\<close> when there is none.
\<close>

fun removeInElements_loop :: "string list \<Rightarrow> int \<Rightarrow> int \<Rightarrow> int" where
  "removeInElements_loop [] idx cnt = - 1"
| "removeInElements_loop (r # rs) idx cnt =
     (if cnt < idx then removeInElements_loop rs idx (cnt + 1)
      else if r = '']'' then cnt
      else removeInElements_loop rs idx (cnt + 1))"

text \<open>
  \<open>removeInElements\<close>. \<open>instr\<close> is one of the two constants of lines 468 to 471, so it is not
  empty; then \<open>0 \<le> idx\<close>, \<open>idx < len(str)\<close> and \<open>idx \<le> epos \<le> len(str)\<close>, and the slice
  expressions \<open>str[:idx]\<close> and \<open>str[epos:]\<close> (byte positions) do not panic.
\<close>

definition removeInElements :: "string \<Rightarrow> string \<Rightarrow> string" where
  "removeInElements str instr =
     (let idx = strings_Index str instr in
      if idx < 0 then str
      else
        (let idx = idx + int (length instr) - 1;
             epos = removeInElements_loop (utf8_runes str) idx (- 1)
         in if epos = - 1 then take (nat idx) str @ ''...]''
            else take (nat idx) str @ ''...'' @ drop (nat epos) str))"

text \<open>Lines 468 to 471: the four calls.\<close>

definition Parse_removeIn :: "string \<Rightarrow> string" where
  "Parse_removeIn filter0 =
     (let f = removeInElements filter0 ''$in: [ '';
          f = removeInElements f ''$nin: [ '';
          f = removeInElements f ''$in: [ '';
          f = removeInElements f ''$nin: [ ''
      in f)"

text \<open>
  Lines 473 to 483: the text from \<open>{ $regex: \<close> (10 bytes) up to the next \<open>}\<close>, counted in
  runes, is replaced by \<open>/.../.../\<close>.
\<close>

definition Parse_regex :: "string \<Rightarrow> string" where
  "Parse_regex filter0 =
     (let isRegex = strings_Index filter0 ''{ $regex: '' in
      if isRegex \<ge> 0 then
        (let cnt = length (takeWhile (\<lambda>r. r \<noteq> ''}'') (utf8_runes (drop (nat isRegex) filter0)))
         in take (nat isRegex + 10) filter0 @ ''/.../.../'' @ drop (nat isRegex + cnt) filter0)
      else filter0)"

subsection \<open>Functions of other packages\<close>

text \<open>
  \<open>Parse\<close> and \<open>reorderFilterFields\<close> call functions that are not part of this repository:
  \<open>gox.NewMongoLog(str).Get(key)\<close> of \<open>github.com/simagix/gox\<close>, \<open>ReplaceAllString\<close> of Go's
  package \<open>regexp\<close> for the four patterns of lines 484 to 491, and \<open>strings.Fields\<close> and
  \<open>strings.TrimSpace\<close>, which depend on Unicode's table of white space. They are parameters
  of the model, collected in a record:
  \<^item> \<open>gox_Get str key\<close> is \<open>gox.NewMongoLog(str).Get(key)\<close>;
  \<^item> \<open>re_scalar\<close> replaces the matches of the pattern of line 484 by \<open>:1\<close>;
  \<^item> \<open>re_shardVersion\<close> removes the matches of the pattern of line 486;
  \<^item> \<open>re_ident\<close> replaces the matches of the pattern of line 488 by \<open>1\<close>;
  \<^item> \<open>re_regex\<close> replaces the matches of the pattern of line 490 by \<open>: /regex/$2}\<close>.
\<close>

record extern =
  gox_Get :: "string \<Rightarrow> string \<Rightarrow> string"
  re_scalar :: "string \<Rightarrow> string"
  re_shardVersion :: "string \<Rightarrow> string"
  re_ident :: "string \<Rightarrow> string"
  re_regex :: "string \<Rightarrow> string"
  strings_Fields :: "string \<Rightarrow> string list"
  strings_TrimSpace :: "string \<Rightarrow> string"

text \<open>\<open>getDocByField\<close> (lines 620 to 623).\<close>

definition getDocByField :: "extern \<Rightarrow> string \<Rightarrow> string \<Rightarrow> string" where
  "getDocByField E str key = gox_Get E str key"

subsection \<open>\<open>hasFilter\<close> and the extraction by operation (lines 381 to 457)\<close>

definition filters :: "string list" where
  "filters = [''count'', ''delete'', ''find'', ''remove'', ''update'', ''aggregate'', ''getMore'',
     ''getmore'', ''findAndModify'']"

definition hasFilter :: "string \<Rightarrow> bool" where
  "hasFilter op' = (op' \<in> set filters)"

text \<open>
  The two loops over marker strings (lines 417 and 444) stop at the first marker for which
  \<open>getDocByField(result[4], mstr)\<close> is not empty.
\<close>

fun Parse_first_doc :: "extern \<Rightarrow> string \<Rightarrow> string list \<Rightarrow> string option" where
  "Parse_first_doc E r4 [] = None"
| "Parse_first_doc E r4 (mstr # ms) =
     (let s = getDocByField E r4 mstr in if s \<noteq> '''' then Some s else Parse_first_doc E r4 ms)"

text \<open>Lines 421 to 429: the suffix \<open>aggStages\<close> of an \<open>aggregate\<close> line.\<close>

definition Parse_aggStages :: "extern \<Rightarrow> string \<Rightarrow> string" where
  "Parse_aggStages E r4 =
     (let x = strings_Index r4 ''$group: '';
          y = strings_Index r4 ''$sort: '';
          aggStages = (if x > 0 \<and> (x < y \<or> y < 0)
                       then '', group: '' @ strings_ReplaceAll (getDocByField E r4 ''$group: '') ''1.0'' ''1''
                       else '''');
          srt = getDocByField E r4 ''$sort: ''
      in if srt \<noteq> '''' then aggStages @ '', sort: '' @ strings_ReplaceAll srt ''1.0'' ''1''
         else aggStages)"

text \<open>
  Lines 381 to 457, from the values of \<open>op\<close>, \<open>filter\<close>, \<open>result[4]\<close> and \<open>scan\<close> at line 381.
  \<open>None\<close> is a \<open>continue\<close>: the line is skipped. Otherwise the result is the pair of
  \<open>filter\<close> and \<open>aggStages\<close> at line 458.
\<close>

definition Parse_extract :: "extern \<Rightarrow> string \<Rightarrow> string \<Rightarrow> string \<Rightarrow> string \<Rightarrow> (string \<times> string) option" where
  "Parse_extract E op' filter0 r4 scan =
     (if \<not> hasFilter op' then None
      else if op' = ''delete'' \<and> strings_Index filter0 ''writeConcern:'' \<ge> 0 then None
      else if op' = ''find'' then
        (let nstr = ''{ }'';
             s = getDocByField E filter0 ''filter: '';
             nstr = (if s \<noteq> '''' then s else nstr);
             s = getDocByField E filter0 ''sort: '';
             nstr = (if s \<noteq> '''' then nstr @ '', sort: '' @ s else nstr)
         in Some (nstr, ''''))
      else if op' = ''count'' \<or> op' = ''distinct'' then
        (let nstr = '''';
             s = getDocByField E filter0 ''query: '';
             nstr = (if s \<noteq> '''' then s else nstr)
         in Some (nstr, ''''))
      else if op' = ''delete'' \<or> op' = ''update'' \<or> op' = ''remove'' \<or> op' = ''findAndModify'' then
        (let s = (if strings_Index filter0 ''query: '' \<ge> 0 then getDocByField E filter0 ''query: ''
                  else getDocByField E filter0 ''q: '')
         in Some (if s \<noteq> '''' then s else filter0, ''''))
      else if op' = ''aggregate'' \<or> (op' = ''getmore'' \<and> strings_Index filter0 ''pipeline:'' > 0) then
        (case Parse_first_doc E r4 [''pipeline: [ { $match: '', ''pipeline: [ { $sort: ''] of
           Some s \<Rightarrow> Some (s, Parse_aggStages E r4)
         | None \<Rightarrow> if scan = ''COLLSCAN'' then Some (''{}'', '''') else None)
      else if op' = ''getMore'' \<or> op' = ''getmore'' then
        (if getDocByField E r4 ''originatingCommand: '' \<noteq> '''' then
           (case Parse_first_doc E r4 [''filter: '', ''pipeline: [ { $match: '', ''pipeline: [ { $sort: ''] of
              Some s \<Rightarrow> Some (s, '''')
            | None \<Rightarrow> None)
         else None)
      else Some (filter0, ''''))"

subsection \<open>\<open>reorderFilterFields\<close> (lines 625 to 668)\<close>

text \<open>
  The map \<open>m\<close> is a list of pairs with one pair for each key; a key that is not there reads
  as the empty string.
\<close>

definition map_put :: "string \<Rightarrow> string \<Rightarrow> (string \<times> string) list \<Rightarrow> (string \<times> string) list" where
  "map_put k v m = (k, v) # filter (\<lambda>p. fst p \<noteq> k) m"

definition map_get :: "(string \<times> string) list \<Rightarrow> string \<Rightarrow> string" where
  "map_get m k = (case map_of m k of Some v \<Rightarrow> v | None \<Rightarrow> '''')"

text \<open>
  One turn of the loop over \<open>fields\<close> (lines 631 to 651), from the map before the turn to
  the map after it. The index expression \<open>field[0]\<close> panics on an empty string.
\<close>

definition reorderFilterFields_field :: "extern \<Rightarrow> string \<Rightarrow> (string \<times> string) list \<Rightarrow> string \<Rightarrow> panic + (string \<times> string) list" where
  "reorderFilterFields_field E filter0 m field =
     (if \<not> strings_HasSuffix field '':'' then Inr m
      else
        (let field = take (length field - 1) field in
         if field = [] then Inl IndexOutOfRange
         else
           (let field = (if hd field = CHR '' '' then tl field else field) in
            if field = [] then Inl IndexOutOfRange
            else
              (let field = (if hd field = CHR ''{'' then tl field else field) in
               if field = [] then Inl IndexOutOfRange
               else if hd field = CHR ''$'' then Inr m
               else
                 (let v = gox_Get E filter0 (field @ '':'') in
                  if v \<noteq> '''' then
                    (if strings_Index field '' '' \<ge> 0 then Inr m else Inr (map_put field v m))
                  else Inr m)))))"

fun reorderFilterFields_loop :: "extern \<Rightarrow> string \<Rightarrow> string list \<Rightarrow> (string \<times> string) list \<Rightarrow> panic + (string \<times> string) list" where
  "reorderFilterFields_loop E filter0 [] m = Inr m"
| "reorderFilterFields_loop E filter0 (field # rest) m =
     (case reorderFilterFields_field E filter0 m field of
        Inl p \<Rightarrow> Inl p
      | Inr m' \<Rightarrow> reorderFilterFields_loop E filter0 rest m')"

text \<open>The second loop: the keys in the order of \<open>sort.Strings\<close> (bytewise), joined by \<open>, \<close>.\<close>

fun reorderFilterFields_join :: "extern \<Rightarrow> (string \<times> string) list \<Rightarrow> string list \<Rightarrow> string" where
  "reorderFilterFields_join E m [] = ''''"
| "reorderFilterFields_join E m [k] = k @ '': '' @ strings_TrimSpace E (map_get m k)"
| "reorderFilterFields_join E m (k # ks) =
     k @ '': '' @ strings_TrimSpace E (map_get m k) @ '', '' @ reorderFilterFields_join E m ks"

text \<open>
  \<open>reorderFilterFields\<close>. Its first statement, \<open>filter := str[1 : len(str)-1]\<close>, panics when
  \<open>str\<close> has fewer than 2 bytes.
\<close>

definition reorderFilterFields :: "extern \<Rightarrow> string \<Rightarrow> panic + string" where
  "reorderFilterFields E str =
     (if length str < 2 then Inl SliceBoundsOutOfRange
      else
        (let filter0 = take (length str - 2) (drop 1 str);
             filter0 = strings_ReplaceAll filter0 '':'' '': '';
             fs = strings_Fields E filter0
         in case reorderFilterFields_loop E filter0 fs [] of
              Inl p \<Rightarrow> Inl p
            | Inr m \<Rightarrow> Inr (''{'' @ reorderFilterFields_join E m (sort (map fst m)) @ ''}'')))"

subsection \<open>The canonical filter (lines 468 to 494)\<close>

definition Parse_canon :: "extern \<Rightarrow> string \<Rightarrow> panic + string" where
  "Parse_canon E filter0 =
     (let f = Parse_removeIn filter0;
          f = Parse_regex f;
          f = re_scalar E f;
          f = re_shardVersion E f;
          f = re_ident E f;
          f = re_regex E f;
          f = strings_ReplaceAll (strings_ReplaceAll f ''{ '' ''{'') '' }'' ''}''
      in reorderFilterFields E f)"

text \<open>
  Lines 381 to 494 together: \<open>None\<close> when the line is skipped, a panic when the run stops
  there, or the value of \<open>filter\<close> at line 495.
\<close>

definition Parse_filter :: "extern \<Rightarrow> string \<Rightarrow> string \<Rightarrow> string \<Rightarrow> string \<Rightarrow> (panic + string) option" where
  "Parse_filter E op' filter0 r4 scan =
     (case Parse_extract E op' filter0 r4 scan of
        None \<Rightarrow> None
      | Some (f, aggStages) \<Rightarrow>
          Some (case Parse_canon E f of Inl p \<Rightarrow> Inl p | Inr c \<Rightarrow> Inr (c @ aggStages)))"

text \<open>
  An instance of the parameters for the examples: no key is found, no pattern matches, and
  no field is split off.
\<close>

definition extern_none :: extern where
  "extern_none =
     \<lparr>gox_Get = (\<lambda>str key. ''''), re_scalar = (\<lambda>s. s), re_shardVersion = (\<lambda>s. s),
      re_ident = (\<lambda>s. s), re_regex = (\<lambda>s. s),
      strings_Fields = (\<lambda>s. []), strings_TrimSpace = (\<lambda>s. s)\<rparr>"

subsection \<open>Filters as text and enumerations\<close>

text \<open>
  To state what lines 468 to 471 do, a filter is described as a sequence of segments: plain
  text, an enumeration \<open>$in: [ body]\<close> or \<open>$nin: [ body]\<close> (the flag is true for
  \<open>$nin\<close>), or an enumeration already truncated, \<open>$in: [... ]\<close> or \<open>$nin: [... ]\<close>.
  The server prints an enumeration with elements as \<open>[ 1, 2, 3 ]\<close>; its body is then
  \<open>1, 2, 3\<close> followed by a space.
\<close>

datatype seg = Txt string | Enum bool string | Done bool

definition marker :: "bool \<Rightarrow> string" where
  "marker nin = (if nin then ''$nin: [ '' else ''$in: [ '')"

fun seg_text :: "seg \<Rightarrow> string" where
  "seg_text (Txt t) = t"
| "seg_text (Enum nin body) = marker nin @ body @ '']''"
| "seg_text (Done nin) = butlast (marker nin) @ ''... ]''"

definition flat :: "seg list \<Rightarrow> string" where
  "flat segs = concat (map seg_text segs)"

fun seg_done :: "seg \<Rightarrow> seg" where
  "seg_done (Enum nin body) = Done nin"
| "seg_done s = s"

text \<open>
  Text is clear of a marker when, wherever a \<open>$\<close> stands in it, what follows the \<open>$\<close> in
  the text neither starts with the marker nor is the beginning of the marker. Plain text
  is ASCII and clear of both markers (operators such as \<open>$gt\<close> may occur in it). The body
  of an enumeration is plain, holds no \<open>]\<close>, and is empty or ends with a space.
\<close>

fun clear_for :: "bool \<Rightarrow> string \<Rightarrow> bool" where
  "clear_for k [] = True"
| "clear_for k (c # t) =
     ((c = CHR ''$'' \<longrightarrow> \<not> prefix (c # t) (marker k) \<and> \<not> prefix (marker k) (c # t)) \<and>
      clear_for k t)"

definition plain :: "string \<Rightarrow> bool" where
  "plain t = ((\<forall>c\<in>set t. \<not> digit7 c) \<and> clear_for False t \<and> clear_for True t)"

fun seg_ok :: "seg \<Rightarrow> bool" where
  "seg_ok (Txt t) = plain t"
| "seg_ok (Enum nin body) = (plain body \<and> CHR '']'' \<notin> set body \<and> (body = [] \<or> last body = CHR '' ''))"
| "seg_ok (Done nin) = True"

fun is_Enum :: "bool \<Rightarrow> seg \<Rightarrow> bool" where
  "is_Enum k (Enum nin body) = (nin = k)"
| "is_Enum k s = False"

text \<open>What one call of \<open>removeInElements\<close> does to the segments: the first enumeration of its
  operator becomes a truncated one.\<close>

fun trunc_first :: "bool \<Rightarrow> seg list \<Rightarrow> seg list" where
  "trunc_first k [] = []"
| "trunc_first k (Enum nin body # ss) =
     (if nin = k then Done k # ss else Enum nin body # trunc_first k ss)"
| "trunc_first k (s # ss) = s # trunc_first k ss"

fun done_of :: "bool \<Rightarrow> seg \<Rightarrow> seg" where
  "done_of k (Enum nin body) = (if nin = k then Done k else Enum nin body)"
| "done_of k s = s"

text \<open>An index moved right by \<open>n\<close> positions, \<open>-1\<close> staying \<open>-1\<close>.\<close>

definition shift :: "nat \<Rightarrow> int \<Rightarrow> int" where
  "shift n i = (if i < 0 then - 1 else int n + i)"


section \<open>Properties of the slow-op list\<close>

lemma not_sless_iff: "(\<not> a <s b) = (b \<le>s a)"
  by (simp add: word_sless_alt word_sle_eq not_less)

lemma sle_antisym: "a \<le>s b \<Longrightarrow> b \<le>s a \<Longrightarrow> a = (b::'a::len word)"
proof -
  assume "a \<le>s b" and "b \<le>s a"
  then have "sint a = sint b" by (simp add: word_sle_eq)
  then show "a = b" by (rule signed_word_eqI)
qed

lemma sle_trans: "a \<le>s b \<Longrightarrow> b \<le>s c \<Longrightarrow> a \<le>s (c::'a::len word)"
  by (simp add: word_sle_eq)

lemma sort_Slice_spec_length: "sort_Slice_spec lt srt \<Longrightarrow> length (srt xs) = length xs"
  by (metis sort_Slice_spec_def size_mset)

lemma sort_Slice_spec_mset: "sort_Slice_spec lt srt \<Longrightarrow> mset (srt xs) = mset xs"
  by (simp add: sort_Slice_spec_def)

lemma sort_Slice_spec_desc: "sort_Slice_spec SlowOps_less srt \<Longrightarrow> SlowOps_desc (srt xs)"
  by (simp add: sort_Slice_spec_def SlowOps_desc_def SlowOps_less_def not_sless_iff)

lemma Parse_SlowOps_inv:
  assumes "sort_Slice_spec SlowOps_less srt" and "length ops \<le> 10" and "SlowOps_desc ops"
  shows "length (Parse_SlowOps srt ops m s) \<le> 10 \<and> SlowOps_desc (Parse_SlowOps srt ops m s)"
proof -
  let ?ops' = "srt (ops @ [\<lparr>Milli = m, Log = s\<rparr>])"
  have d: "SlowOps_desc ?ops'"
    using assms(1) by (rule sort_Slice_spec_desc)
  then have "SlowOps_desc (take 10 ?ops')"
    by (simp add: SlowOps_desc_def sorted_wrt_take)
  with d assms(2,3) show ?thesis
    by (simp add: Parse_SlowOps_def Let_def)
qed

lemma SlowOps_run_snoc:
  "SlowOps_run srt (es @ [(m, s)]) = Parse_SlowOps srt (SlowOps_run srt es) m s"
  by (simp add: SlowOps_run_def)

lemma SlowOps_run_inv:
  assumes "sort_Slice_spec SlowOps_less srt"
  shows "length (SlowOps_run srt es) \<le> 10 \<and> SlowOps_desc (SlowOps_run srt es)"
proof (induction es rule: rev_induct)
  case Nil
  show ?case by (simp add: SlowOps_run_def SlowOps_desc_def)
next
  case (snoc e es)
  obtain m s where e: "e = (m, s)" by (cases e)
  show ?case
    unfolding e SlowOps_run_snoc
    using Parse_SlowOps_inv [OF assms] snoc.IH by blast
qed

lemma SlowOps_desc_last_min:
  assumes "SlowOps_desc ops" and "x \<in> set ops" and "ops \<noteq> []"
  shows "Milli (last ops) \<le>s Milli x"
proof -
  obtain ys y where ops: "ops = ys @ [y]"
    using assms(3) by (meson rev_exhaust)
  show ?thesis
    using assms(1,2) unfolding ops SlowOps_desc_def
    by (auto simp: sorted_wrt_append word_sle_eq)
qed

lemma Parse_SlowOps_under:
  assumes "sort_Slice_spec SlowOps_less srt" and "length ops < 10"
  shows "mset (Parse_SlowOps srt ops m s) = add_mset \<lparr>Milli = m, Log = s\<rparr> (mset ops)"
  using assms
  by (simp add: Parse_SlowOps_def Let_def sort_Slice_spec_length [OF assms(1)]
      sort_Slice_spec_mset [OF assms(1)])

lemma Parse_SlowOps_full:
  assumes spec: "sort_Slice_spec SlowOps_less srt" and len: "length ops = 10"
    and desc: "SlowOps_desc ops" and gt: "Milli (ops ! 9) <s m"
  shows "\<exists>d\<in>set ops. Milli d = Milli (ops ! 9) \<and>
           add_mset d (mset (Parse_SlowOps srt ops m s)) = add_mset \<lparr>Milli = m, Log = s\<rparr> (mset ops)"
proof -
  let ?e = "\<lparr>Milli = m, Log = s\<rparr>"
  let ?ops' = "srt (ops @ [?e])"
  have ne: "ops \<noteq> []" using len by auto
  have last9: "last ops = ops ! 9" using len ne by (simp add: last_conv_nth)
  have len': "length ?ops' = 11"
    by (simp add: sort_Slice_spec_length [OF spec] len)
  then have ne': "?ops' \<noteq> []" by auto
  have res: "Parse_SlowOps srt ops m s = take 10 ?ops'"
    using len gt len' by (simp add: Parse_SlowOps_def Let_def)
  have bl: "take 10 ?ops' = butlast ?ops'"
    using len' by (simp add: butlast_conv_take)
  have split: "?ops' = take 10 ?ops' @ [last ?ops']"
    using ne' bl by simp
  have ms: "mset ?ops' = add_mset ?e (mset ops)"
    by (simp add: sort_Slice_spec_mset [OF spec])
  have "mset ?ops' = add_mset (last ?ops') (mset (take 10 ?ops'))"
    by (subst split) simp
  with ms res have eq: "add_mset (last ?ops') (mset (Parse_SlowOps srt ops m s)) = add_mset ?e (mset ops)"
    by simp
  have d': "SlowOps_desc ?ops'" using spec by (rule sort_Slice_spec_desc)
  have setp: "set ?ops' = insert ?e (set ops)"
    using ms by (metis set_mset_add_mset_insert set_mset_mset)
  have lin: "last ?ops' \<in> set ?ops'" using ne' by simp
  have min9: "Milli (last ?ops') \<le>s Milli (ops ! 9)"
  proof -
    have "ops ! 9 \<in> set ?ops'" using setp len by simp
    then show ?thesis using SlowOps_desc_last_min [OF d' _ ne'] by blast
  qed
  have notnew: "last ?ops' \<noteq> ?e"
  proof
    assume "last ?ops' = ?e"
    then have "m \<le>s Milli (ops ! 9)" using min9 by simp
    with gt show False by (simp add: word_sless_alt word_sle_eq)
  qed
  with lin setp have dold: "last ?ops' \<in> set ops" by auto
  then have "Milli (ops ! 9) \<le>s Milli (last ?ops')"
    using SlowOps_desc_last_min [OF desc _ ne] last9 by simp
  with min9 have "Milli (last ?ops') = Milli (ops ! 9)"
    by (rule sle_antisym)
  with dold eq show ?thesis by blast
qed

lemma Parse_SlowOps_reject:
  assumes "length ops = 10" and "\<not> Milli (ops ! 9) <s m"
  shows "Parse_SlowOps srt ops m s = ops"
  using assms by (simp add: Parse_SlowOps_def)


lemma mset_insertionSort_ins: "mset (insertionSort_ins lt x ys) = add_mset x (mset ys)"
  by (induction ys) auto

lemma set_insertionSort_ins: "set (insertionSort_ins lt x ys) = insert x (set ys)"
  by (induction ys) auto

lemma mset_foldl_ins:
  "mset (foldl (\<lambda>acc x. insertionSort_ins lt x acc) acc xs) = mset acc + mset xs"
  by (induction xs arbitrary: acc) (auto simp: mset_insertionSort_ins)

lemma mset_insertionSort: "mset (insertionSort lt xs) = mset xs"
  by (simp add: insertionSort_def mset_foldl_ins)

lemma asc_insertionSort_ins:
  "sorted_wrt (\<lambda>a b. Milli a \<le>s Milli b) ys \<Longrightarrow>
   sorted_wrt (\<lambda>a b. Milli a \<le>s Milli b) (insertionSort_ins SlowOps_less x ys)"
proof (induction ys)
  case Nil
  show ?case by simp
next
  case (Cons y ys)
  show ?case
  proof (cases "SlowOps_less x y")
    case True
    then have "Milli y \<le>s Milli x"
      by (simp add: SlowOps_less_def word_sless_alt word_sle_eq)
    with Cons True show ?thesis
      by (auto simp: set_insertionSort_ins)
  next
    case False
    then have xy: "Milli x \<le>s Milli y"
      by (simp add: SlowOps_less_def not_sless_iff)
    have "\<forall>z\<in>set ys. Milli x \<le>s Milli z"
      using Cons.prems xy by (auto intro: sle_trans)
    with Cons.prems xy False show ?thesis by simp
  qed
qed

lemma asc_foldl_ins:
  "sorted_wrt (\<lambda>a b. Milli a \<le>s Milli b) acc \<Longrightarrow>
   sorted_wrt (\<lambda>a b. Milli a \<le>s Milli b) (foldl (\<lambda>acc x. insertionSort_ins SlowOps_less x acc) acc xs)"
  by (induction xs arbitrary: acc) (auto simp: asc_insertionSort_ins)

lemma insertionSort_desc: "SlowOps_desc (insertionSort SlowOps_less xs)"
proof -
  have "sorted_wrt (\<lambda>a b. Milli a \<le>s Milli b) (foldl (\<lambda>acc x. insertionSort_ins SlowOps_less x acc) [] xs)"
    by (rule asc_foldl_ins) simp
  then show ?thesis
    by (simp add: SlowOps_desc_def insertionSort_def sorted_wrt_rev)
qed

lemma insertionSort_spec: "sort_Slice_spec SlowOps_less (insertionSort SlowOps_less)"
  using insertionSort_desc
  by (simp add: sort_Slice_spec_def mset_insertionSort SlowOps_desc_def SlowOps_less_def not_sless_iff)








text \<open>
  C3. At every point of a parse run the slow-op list has at most 10 entries and is sorted in
  descending order of \<open>Milli\<close>. Below 10 entries the considered entry is always inserted.
  At 10 entries the entry at index 9 is the smallest one held; a new entry whose \<open>Milli\<close> is
  greater is inserted and one entry with that smallest \<open>Milli\<close> leaves; any other new entry
  changes nothing. This holds for every sort that keeps the promise of \<open>sort.Slice\<close>.
\<close>

theorem SlowOps_tracker:
  assumes "sort_Slice_spec SlowOps_less srt"
  shows "let ops = SlowOps_run srt es;
             e = \<lparr>Milli = milli, Log = str\<rparr>;
             ops' = Parse_SlowOps srt ops milli str
         in length ops \<le> 10 \<and> SlowOps_desc ops \<and>
            (length ops < 10 \<longrightarrow> mset ops' = add_mset e (mset ops)) \<and>
            (length ops = 10 \<longrightarrow> (\<forall>x\<in>set ops. Milli (ops ! 9) \<le>s Milli x)) \<and>
            (length ops = 10 \<and> Milli (ops ! 9) <s milli \<longrightarrow>
               (\<exists>d\<in>set ops. Milli d = Milli (ops ! 9) \<and> add_mset d (mset ops') = add_mset e (mset ops))) \<and>
            (length ops = 10 \<and> \<not> Milli (ops ! 9) <s milli \<longrightarrow> ops' = ops)"
proof -
  let ?ops = "SlowOps_run srt es"
  have inv: "length ?ops \<le> 10" "SlowOps_desc ?ops"
    using SlowOps_run_inv [OF assms] by auto
  have under: "length ?ops < 10 \<Longrightarrow>
      mset (Parse_SlowOps srt ?ops milli str) = add_mset \<lparr>Milli = milli, Log = str\<rparr> (mset ?ops)"
    using assms by (rule Parse_SlowOps_under)
  have smallest: "Milli (?ops ! 9) \<le>s Milli x" if "length ?ops = 10" and "x \<in> set ?ops" for x
  proof -
    have "?ops \<noteq> []" using that(1) by auto
    moreover from this have "last ?ops = ?ops ! 9" using that(1) by (simp add: last_conv_nth)
    ultimately show ?thesis using SlowOps_desc_last_min [OF inv(2) that(2)] by simp
  qed
  have full: "length ?ops = 10 \<Longrightarrow> Milli (?ops ! 9) <s milli \<Longrightarrow>
      \<exists>d\<in>set ?ops. Milli d = Milli (?ops ! 9) \<and>
        add_mset d (mset (Parse_SlowOps srt ?ops milli str)) = add_mset \<lparr>Milli = milli, Log = str\<rparr> (mset ?ops)"
    using Parse_SlowOps_full [OF assms _ inv(2)] by blast
  have reject: "length ?ops = 10 \<Longrightarrow> \<not> Milli (?ops ! 9) <s milli \<Longrightarrow>
      Parse_SlowOps srt ?ops milli str = ?ops"
    by (rule Parse_SlowOps_reject)
  show ?thesis
    unfolding Let_def using inv under smallest full reject by blast
qed

lemma example_ten_run:
  "SlowOps_run (insertionSort SlowOps_less) example_ten =
     [\<lparr>Milli = 100, Log = ''j''\<rparr>, \<lparr>Milli = 90, Log = ''i''\<rparr>, \<lparr>Milli = 80, Log = ''h''\<rparr>,
      \<lparr>Milli = 70, Log = ''g''\<rparr>, \<lparr>Milli = 60, Log = ''f''\<rparr>, \<lparr>Milli = 50, Log = ''e''\<rparr>,
      \<lparr>Milli = 40, Log = ''d''\<rparr>, \<lparr>Milli = 30, Log = ''c''\<rparr>, \<lparr>Milli = 20, Log = ''b''\<rparr>,
      \<lparr>Milli = 10, Log = ''a''\<rparr>]"
  by (simp add: example_ten_def SlowOps_run_def Parse_SlowOps_def insertionSort_def SlowOps_less_def
      word_sless_alt)

theorem SlowOps_tracker_witness:
  "sort_Slice_spec SlowOps_less (insertionSort SlowOps_less) \<and>
   length (SlowOps_run (insertionSort SlowOps_less) [(120, ''x'')]) < 10 \<and>
   mset (Parse_SlowOps (insertionSort SlowOps_less) (SlowOps_run (insertionSort SlowOps_less) [(120, ''x'')]) 80 ''y'') =
     {#\<lparr>Milli = 80, Log = ''y''\<rparr>, \<lparr>Milli = 120, Log = ''x''\<rparr>#} \<and>
   length (SlowOps_run (insertionSort SlowOps_less) example_ten) = 10 \<and>
   Milli (SlowOps_run (insertionSort SlowOps_less) example_ten ! 9) <s 55 \<and>
   (\<exists>d\<in>set (SlowOps_run (insertionSort SlowOps_less) example_ten).
      Milli d = Milli (SlowOps_run (insertionSort SlowOps_less) example_ten ! 9) \<and>
      add_mset d (mset (Parse_SlowOps (insertionSort SlowOps_less)
          (SlowOps_run (insertionSort SlowOps_less) example_ten) 55 ''k'')) =
        add_mset \<lparr>Milli = 55, Log = ''k''\<rparr> (mset (SlowOps_run (insertionSort SlowOps_less) example_ten))) \<and>
   \<not> Milli (SlowOps_run (insertionSort SlowOps_less) example_ten ! 9) <s 10 \<and>
   Parse_SlowOps (insertionSort SlowOps_less) (SlowOps_run (insertionSort SlowOps_less) example_ten) 10 ''l'' =
     SlowOps_run (insertionSort SlowOps_less) example_ten"
proof -
  let ?srt = "insertionSort SlowOps_less"
  have run1: "SlowOps_run ?srt [(120, ''x'')] = [\<lparr>Milli = 120, Log = ''x''\<rparr>]"
    by (simp add: SlowOps_run_def Parse_SlowOps_def insertionSort_def)
  have under: "length (SlowOps_run ?srt [(120, ''x'')]) < 10"
    by (simp add: run1)
  have a: "mset (Parse_SlowOps ?srt (SlowOps_run ?srt [(120, ''x'')]) 80 ''y'') =
     {#\<lparr>Milli = 80, Log = ''y''\<rparr>, \<lparr>Milli = 120, Log = ''x''\<rparr>#}"
    using SlowOps_tracker [OF insertionSort_spec, of "[(120, ''x'')]" 80 "''y''"] under
    by (simp add: Let_def run1)
  have full: "length (SlowOps_run ?srt example_ten) = 10"
    by (simp add: example_ten_run)
  have gt: "Milli (SlowOps_run ?srt example_ten ! 9) <s 55"
    by (simp add: example_ten_run word_sless_alt)
  have ngt: "\<not> Milli (SlowOps_run ?srt example_ten ! 9) <s 10"
    by (simp add: example_ten_run word_sless_alt)
  have b: "\<exists>d\<in>set (SlowOps_run ?srt example_ten).
      Milli d = Milli (SlowOps_run ?srt example_ten ! 9) \<and>
      add_mset d (mset (Parse_SlowOps ?srt (SlowOps_run ?srt example_ten) 55 ''k'')) =
        add_mset \<lparr>Milli = 55, Log = ''k''\<rparr> (mset (SlowOps_run ?srt example_ten))"
    using SlowOps_tracker [OF insertionSort_spec, of example_ten 55 "''k''", unfolded Let_def] full gt
    by blast
  have c: "Parse_SlowOps ?srt (SlowOps_run ?srt example_ten) 10 ''l'' = SlowOps_run ?srt example_ten"
    using SlowOps_tracker [OF insertionSort_spec, of example_ten 10 "''l''", unfolded Let_def] full ngt
    by blast
  from insertionSort_spec under a full gt b ngt c show ?thesis by blast
qed



section \<open>Properties of the shape map and of the rendering\<close>

lemma strings_Index_ge: "strings_Index s p \<ge> - 1"
  by (induction s) (subst strings_Index.simps; simp add: Let_def)+

lemma strings_Index_contains:
  "(strings_Index s p \<ge> 0) = (\<exists>pre post. s = pre @ p @ post)"
proof (induction s)
  case Nil
  show ?case by (subst strings_Index.simps) (auto simp: prefix_def)
next
  case (Cons c t)
  show ?case
  proof (cases "prefix p (c # t)")
    case True
    then obtain post where "c # t = p @ post" by (auto simp: prefix_def)
    then have "c # t = [] @ p @ post" by simp
    then have "\<exists>pre post. c # t = pre @ p @ post" by blast
    with True show ?thesis by (subst strings_Index.simps) simp
  next
    case False
    have "(\<exists>pre post. c # t = pre @ p @ post) = (\<exists>pre post. t = pre @ p @ post)"
    proof
      assume "\<exists>pre post. c # t = pre @ p @ post"
      then obtain pre post where e: "c # t = pre @ p @ post" by blast
      have "pre \<noteq> []" using e False by (auto simp: prefix_def)
      then obtain pre' where "pre = c # pre'" using e by (cases pre) auto
      with e show "\<exists>pre post. t = pre @ p @ post" by auto
    next
      assume "\<exists>pre post. t = pre @ p @ post"
      then obtain pre post where "t = pre @ p @ post" by blast
      then have "c # t = (c # pre) @ p @ post" by simp
      then show "\<exists>pre post. c # t = pre @ p @ post" by blast
    qed
    with False Cons strings_Index_ge [of t p] show ?thesis
      by (subst strings_Index.simps) (auto simp: Let_def)
  qed
qed

lemma Parse_scan_contains:
  "(Parse_scan str = COLLSCAN) = (\<exists>pre post. str = pre @ ''COLLSCAN'' @ post)"
  by (simp add: Parse_scan_def COLLSCAN_def strings_Index_contains)

lemma opsMap_run_snoc: "opsMap_run (ls @ [l]) = Parse_opsMap (opsMap_run ls) l"
  by (simp add: opsMap_run_def)

lemma dom_Parse_opsMap: "dom (Parse_opsMap m l) = insert (Parse_key l) (dom m)"
  by (auto simp: Parse_opsMap_def Let_def split: option.splits)

lemma dom_opsMap_run: "dom (opsMap_run ls) = Parse_key ` set ls"
proof (induction ls rule: rev_induct)
  case Nil
  show ?case by (simp add: opsMap_run_def)
next
  case (snoc l ls)
  then show ?case by (simp add: opsMap_run_snoc dom_Parse_opsMap)
qed

lemma Parse_opsMap_None:
  "m (Parse_key l) = None \<Longrightarrow>
   Parse_opsMap m l (Parse_key l) =
     Some \<lparr>Command = q_op l, Count = 1, Filter = q_filter l, MaxMilli = q_milli l,
       Namespace = q_ns l, Scan = Parse_scan (q_str l), TotalMilli = q_milli l, Index = q_index l\<rparr>"
  by (simp add: Parse_opsMap_def Let_def)

lemma Parse_opsMap_Some:
  "m (Parse_key l) = Some d \<Longrightarrow>
   Parse_opsMap m l (Parse_key l) =
     Some \<lparr>Command = Command d, Count = Count d + 1, Filter = Filter d,
       MaxMilli = (if MaxMilli d <s q_milli l then q_milli l else MaxMilli d),
       Namespace = q_ns l, Scan = Parse_scan (q_str l), TotalMilli = TotalMilli d + q_milli l,
       Index = q_index l\<rparr>"
  by (simp add: Parse_opsMap_def Let_def)

lemma Parse_opsMap_other: "k \<noteq> Parse_key l \<Longrightarrow> Parse_opsMap m l k = m k"
  by (simp add: Parse_opsMap_def Let_def split: option.splits)

lemma shape_stats_first:
  "shape_stats [l] \<lparr>Command = q_op l, Count = 1, Filter = q_filter l, MaxMilli = q_milli l,
       Namespace = q_ns l, Scan = Parse_scan (q_str l), TotalMilli = q_milli l, Index = q_index l\<rparr>"
  by (simp add: shape_stats_def word_sle_eq)

lemma shape_stats_next:
  assumes "shape_stats os d" and "os \<noteq> []"
  shows "shape_stats (os @ [l]) \<lparr>Command = Command d, Count = Count d + 1, Filter = Filter d,
       MaxMilli = (if MaxMilli d <s q_milli l then q_milli l else MaxMilli d),
       Namespace = q_ns l, Scan = Parse_scan (q_str l), TotalMilli = TotalMilli d + q_milli l,
       Index = q_index l\<rparr>"
proof -
  have mx: "\<forall>x\<in>set os. q_milli x \<le>s MaxMilli d" "MaxMilli d \<in> q_milli ` set os"
    using assms(1) by (auto simp: shape_stats_def)
  have up: "\<forall>x\<in>set os. q_milli x \<le>s q_milli l" if "MaxMilli d <s q_milli l"
    using mx(1) that by (auto simp: word_sle_eq word_sless_alt)
  have keep: "q_milli l \<le>s MaxMilli d" if "\<not> MaxMilli d <s q_milli l"
    using that by (simp add: word_sle_eq word_sless_alt)
  show ?thesis
    using assms mx up keep
    by (auto simp: shape_stats_def word_sle_eq)
qed

lemma opsMap_run_stats:
  "shape_lines k ls \<noteq> [] \<Longrightarrow> \<exists>d. opsMap_run ls k = Some d \<and> shape_stats (shape_lines k ls) d"
proof (induction ls rule: rev_induct)
  case Nil
  then show ?case by (simp add: shape_lines_def)
next
  case (snoc l ls)
  show ?case
  proof (cases "Parse_key l = k")
    case False
    then have "shape_lines k (ls @ [l]) = shape_lines k ls"
      by (simp add: shape_lines_def)
    moreover have "opsMap_run (ls @ [l]) k = opsMap_run ls k"
      using False by (simp add: opsMap_run_snoc Parse_opsMap_other)
    ultimately show ?thesis using snoc by simp
  next
    case True
    have sl: "shape_lines k (ls @ [l]) = shape_lines k ls @ [l]"
      using True by (simp add: shape_lines_def)
    show ?thesis
    proof (cases "shape_lines k ls = []")
      case True
      then have "k \<notin> Parse_key ` set ls"
        by (auto simp: shape_lines_def filter_empty_conv)
      then have "opsMap_run ls (Parse_key l) = None"
        using dom_opsMap_run [of ls] \<open>Parse_key l = k\<close> by auto
      then show ?thesis
        using Parse_opsMap_None [of "opsMap_run ls" l] shape_stats_first [of l] True sl \<open>Parse_key l = k\<close>
        by (simp add: opsMap_run_snoc)
    next
      case False
      then obtain d where d: "opsMap_run ls k = Some d" "shape_stats (shape_lines k ls) d"
        using snoc.IH by blast
      show ?thesis
        using Parse_opsMap_Some [of "opsMap_run ls" l d] shape_stats_next [OF d(2) False, of l]
          d(1) sl \<open>Parse_key l = k\<close>
        by (simp add: opsMap_run_snoc)
    qed
  qed
qed

lemma example_keys:
  "Parse_key example_find_120 = ''find.{age: 1}.''"
  "Parse_key example_find_80 = ''find.{age: 1}.''"
  by (simp_all add: Parse_key_def example_find_120_def example_find_80_def
      Parse_scan_def strings_Index.simps COLLSCAN_def)

lemma example_scans:
  "Parse_scan (q_str example_find_120) = ''''"
  "Parse_scan (q_str example_find_80) = ''''"
  by (simp_all add: example_find_120_def example_find_80_def
      Parse_scan_def strings_Index.simps COLLSCAN_def)

lemma example_literal_scan: "Parse_scan (q_str example_literal) = ''COLLSCAN''"
  by (simp add: example_literal_def Parse_scan_def strings_Index.simps COLLSCAN_def)

lemma example_run1:
  "opsMap_run [example_find_120] ''find.{age: 1}.'' =
     Some \<lparr>Command = ''find'', Count = 1, Filter = ''{age: 1}'', MaxMilli = 120,
       Namespace = ''db.users'', Scan = '''', TotalMilli = 120, Index = ''{ age: 1 }''\<rparr>"
  using Parse_opsMap_None [of Map.empty example_find_120]
  by (simp add: opsMap_run_def example_keys example_scans) (simp add: example_find_120_def)

lemma example_run2:
  "opsMap_run [example_find_120, example_find_80] ''find.{age: 1}.'' =
     Some \<lparr>Command = ''find'', Count = 2, Filter = ''{age: 1}'', MaxMilli = 120,
       Namespace = ''db.users'', Scan = '''', TotalMilli = 200, Index = ''{ age: 1 }''\<rparr>"
proof -
  have f: "q_ns example_find_80 = ''db.users''" "q_index example_find_80 = ''{ age: 1 }''"
      "q_milli example_find_80 = 80"
    by (simp_all add: example_find_80_def)
  have "Parse_opsMap (opsMap_run [example_find_120]) example_find_80 (Parse_key example_find_80) =
     Some \<lparr>Command = ''find'', Count = 2, Filter = ''{age: 1}'', MaxMilli = 120,
       Namespace = ''db.users'', Scan = '''', TotalMilli = 200, Index = ''{ age: 1 }''\<rparr>"
    using Parse_opsMap_Some [of "opsMap_run [example_find_120]" example_find_80,
        OF example_run1 [folded example_keys(2)]]
    by (simp add: example_scans f word_sless_alt)
  moreover have "opsMap_run [example_find_120, example_find_80] =
      Parse_opsMap (opsMap_run [example_find_120]) example_find_80"
    using opsMap_run_snoc [of "[example_find_120]" example_find_80] by simp
  ultimately show ?thesis
    by (simp add: example_keys)
qed

text \<open>
  C4. The entry of a key is created by the first line that has the key, with count 1 and the
  line's duration as total and as maximum. Every later line with the key finds an entry
  \<open>d\<close> that holds the statistics of the earlier lines with the key (\<open>shape_stats\<close>) and
  replaces it: count plus 1, total plus the line's duration, the maximum raised only when
  the duration is greater, namespace and index of the current line, command and filter as
  they were. The entries of the other keys stay as they are.
\<close>

theorem opsMap_update:
  "let m = opsMap_run ls; key = Parse_key l; m' = opsMap_run (ls @ [l]) in
     (key \<notin> Parse_key ` set ls \<longrightarrow>
        m' key = Some \<lparr>Command = q_op l, Count = 1, Filter = q_filter l, MaxMilli = q_milli l,
          Namespace = q_ns l, Scan = Parse_scan (q_str l), TotalMilli = q_milli l, Index = q_index l\<rparr>) \<and>
     (key \<in> Parse_key ` set ls \<longrightarrow>
        (\<exists>d. m key = Some d \<and> shape_stats (shape_lines key ls) d \<and>
          m' key = Some \<lparr>Command = Command d, Count = Count d + 1, Filter = Filter d,
            MaxMilli = (if MaxMilli d <s q_milli l then q_milli l else MaxMilli d),
            Namespace = q_ns l, Scan = Parse_scan (q_str l), TotalMilli = TotalMilli d + q_milli l,
            Index = q_index l\<rparr>)) \<and>
     (\<forall>k. k \<noteq> key \<longrightarrow> m' k = m k)"
proof -
  have a: "Parse_key l \<notin> Parse_key ` set ls \<longrightarrow>
      Parse_opsMap (opsMap_run ls) l (Parse_key l) =
        Some \<lparr>Command = q_op l, Count = 1, Filter = q_filter l, MaxMilli = q_milli l,
          Namespace = q_ns l, Scan = Parse_scan (q_str l), TotalMilli = q_milli l, Index = q_index l\<rparr>"
  proof
    assume "Parse_key l \<notin> Parse_key ` set ls"
    then have "opsMap_run ls (Parse_key l) = None"
      using dom_opsMap_run [of ls] by auto
    then show "Parse_opsMap (opsMap_run ls) l (Parse_key l) =
        Some \<lparr>Command = q_op l, Count = 1, Filter = q_filter l, MaxMilli = q_milli l,
          Namespace = q_ns l, Scan = Parse_scan (q_str l), TotalMilli = q_milli l, Index = q_index l\<rparr>"
      by (rule Parse_opsMap_None)
  qed
  have b: "Parse_key l \<in> Parse_key ` set ls \<longrightarrow>
      (\<exists>d. opsMap_run ls (Parse_key l) = Some d \<and> shape_stats (shape_lines (Parse_key l) ls) d \<and>
        Parse_opsMap (opsMap_run ls) l (Parse_key l) =
          Some \<lparr>Command = Command d, Count = Count d + 1, Filter = Filter d,
            MaxMilli = (if MaxMilli d <s q_milli l then q_milli l else MaxMilli d),
            Namespace = q_ns l, Scan = Parse_scan (q_str l), TotalMilli = TotalMilli d + q_milli l,
            Index = q_index l\<rparr>)"
  proof
    assume "Parse_key l \<in> Parse_key ` set ls"
    then have "shape_lines (Parse_key l) ls \<noteq> []"
      by (auto simp: shape_lines_def filter_empty_conv)
    then obtain d where d: "opsMap_run ls (Parse_key l) = Some d"
        "shape_stats (shape_lines (Parse_key l) ls) d"
      using opsMap_run_stats by blast
    from d(1) have "Parse_opsMap (opsMap_run ls) l (Parse_key l) =
          Some \<lparr>Command = Command d, Count = Count d + 1, Filter = Filter d,
            MaxMilli = (if MaxMilli d <s q_milli l then q_milli l else MaxMilli d),
            Namespace = q_ns l, Scan = Parse_scan (q_str l), TotalMilli = TotalMilli d + q_milli l,
            Index = q_index l\<rparr>"
      by (rule Parse_opsMap_Some)
    with d show "\<exists>d. opsMap_run ls (Parse_key l) = Some d \<and> shape_stats (shape_lines (Parse_key l) ls) d \<and>
        Parse_opsMap (opsMap_run ls) l (Parse_key l) =
          Some \<lparr>Command = Command d, Count = Count d + 1, Filter = Filter d,
            MaxMilli = (if MaxMilli d <s q_milli l then q_milli l else MaxMilli d),
            Namespace = q_ns l, Scan = Parse_scan (q_str l), TotalMilli = TotalMilli d + q_milli l,
            Index = q_index l\<rparr>"
      by blast
  qed
  have c: "\<forall>k. k \<noteq> Parse_key l \<longrightarrow> Parse_opsMap (opsMap_run ls) l k = opsMap_run ls k"
    using Parse_opsMap_other by blast
  show ?thesis
    unfolding Let_def opsMap_run_snoc using a b c by blast
qed

theorem opsMap_update_witness:
  "Parse_key example_find_120 \<notin> Parse_key ` set [] \<and>
   opsMap_run ([] @ [example_find_120]) (Parse_key example_find_120) =
     Some \<lparr>Command = ''find'', Count = 1, Filter = ''{age: 1}'', MaxMilli = 120,
       Namespace = ''db.users'', Scan = '''', TotalMilli = 120, Index = ''{ age: 1 }''\<rparr> \<and>
   Parse_key example_find_80 \<in> Parse_key ` set [example_find_120] \<and>
   opsMap_run ([example_find_120] @ [example_find_80]) (Parse_key example_find_80) =
     Some \<lparr>Command = ''find'', Count = 2, Filter = ''{age: 1}'', MaxMilli = 120,
       Namespace = ''db.users'', Scan = '''', TotalMilli = 200, Index = ''{ age: 1 }''\<rparr>"
proof -
  have w1: "opsMap_run ([] @ [example_find_120]) (Parse_key example_find_120) =
     Some \<lparr>Command = ''find'', Count = 1, Filter = ''{age: 1}'', MaxMilli = 120,
       Namespace = ''db.users'', Scan = '''', TotalMilli = 120, Index = ''{ age: 1 }''\<rparr>"
    using opsMap_update [of "[]" example_find_120]
    by (simp add: Let_def example_scans) (simp add: example_find_120_def)
  have w2: "opsMap_run ([example_find_120] @ [example_find_80]) (Parse_key example_find_80) =
     Some \<lparr>Command = ''find'', Count = 2, Filter = ''{age: 1}'', MaxMilli = 120,
       Namespace = ''db.users'', Scan = '''', TotalMilli = 200, Index = ''{ age: 1 }''\<rparr>"
    using opsMap_update [of "[example_find_120]" example_find_80]
    by (simp add: Let_def example_keys example_run1 example_scans word_sless_alt)
       (simp add: example_find_80_def)
  show ?thesis
    using w1 w2 by (simp add: example_keys)
qed

text \<open>
  C10. A qualifying line is classified as a collection scan exactly when the raw line holds
  the text \<open>COLLSCAN\<close> at any place: this decides the scan part of its key, the \<open>Scan\<close>
  field of the entry that the line creates or updates, and the rendered flag
  \<open>IsCollectionScan\<close> of that entry.
\<close>

theorem collscan_anywhere:
  "let c = (\<exists>pre post. q_str l = pre @ ''COLLSCAN'' @ post); key = Parse_key l in
     Parse_scan (q_str l) = (if c then ''COLLSCAN'' else '''') \<and>
     key = q_op l @ ''.'' @ q_filter l @ ''.'' @ (if c then ''COLLSCAN'' else '''') \<and>
     (\<exists>d. opsMap_run (ls @ [l]) key = Some d \<and> Scan d = (if c then ''COLLSCAN'' else '''') \<and>
          IsCollectionScan (ConverOpPerformanceDocumentToLogInfoLineAnalytics d) = c)"
proof -
  let ?c = "\<exists>pre post. q_str l = pre @ ''COLLSCAN'' @ post"
  have scan: "Parse_scan (q_str l) = (if ?c then ''COLLSCAN'' else '''')"
    using Parse_scan_contains [of "q_str l"] by (auto simp: Parse_scan_def COLLSCAN_def)
  have key: "Parse_key l = q_op l @ ''.'' @ q_filter l @ ''.'' @ (if ?c then ''COLLSCAN'' else '''')"
    unfolding Parse_key_def scan ..
  have "\<exists>d. Parse_opsMap (opsMap_run ls) l (Parse_key l) = Some d \<and> Scan d = Parse_scan (q_str l)"
    by (cases "opsMap_run ls (Parse_key l)") (simp_all add: Parse_opsMap_None Parse_opsMap_Some)
  then obtain d where d: "opsMap_run (ls @ [l]) (Parse_key l) = Some d" "Scan d = Parse_scan (q_str l)"
    by (auto simp: opsMap_run_snoc)
  have "IsCollectionScan (ConverOpPerformanceDocumentToLogInfoLineAnalytics d) = ?c"
    using d(2) Parse_scan_contains [of "q_str l"]
    by (simp add: ConverOpPerformanceDocumentToLogInfoLineAnalytics_def)
  with d scan have "\<exists>d. opsMap_run (ls @ [l]) (Parse_key l) = Some d \<and>
      Scan d = (if ?c then ''COLLSCAN'' else '''') \<and>
      IsCollectionScan (ConverOpPerformanceDocumentToLogInfoLineAnalytics d) = ?c"
    by metis
  with scan key show ?thesis
    unfolding Let_def by blast
qed

theorem collscan_anywhere_witness:
  "Parse_key example_literal = ''find.{tag: COLLSCAN}.COLLSCAN'' \<and>
   (\<exists>d. opsMap_run ([] @ [example_literal]) (Parse_key example_literal) = Some d \<and>
        Scan d = ''COLLSCAN'' \<and> IsCollectionScan (ConverOpPerformanceDocumentToLogInfoLineAnalytics d))"
proof -
  have c: "\<exists>pre post. q_str example_literal = pre @ ''COLLSCAN'' @ post"
    using example_literal_scan Parse_scan_contains [of "q_str example_literal"]
    by (simp add: COLLSCAN_def)
  have f: "q_op example_literal = ''find''" "q_filter example_literal = ''{tag: COLLSCAN}''"
    by (simp_all add: example_literal_def)
  show ?thesis
    using collscan_anywhere [of example_literal "[]"] c
    by (auto simp: Let_def f)
qed

text \<open>
  C8 fails on the code: the rendered record of the shape made of the lines of 120 ms and
  80 ms has \<open>MinMilliseconds = 0\<close>, not 80 (and \<open>MaxMilliseconds = 0\<close>, not 120), since
  the conversion never assigns these two fields.
\<close>

theorem minMilliseconds_never_set:
  "opsMap_run [example_find_120, example_find_80] (Parse_key example_find_80) =
     Some (hd (OpsPatterns example_parsed)) \<and>
   printLogsSummary_lines example_parsed =
     [\<lparr>LogInfoLineAnalytics.Namespace = ''db.users'', LogInfoLineAnalytics.Command = ''find'',
       QueryPattern = ''{age: 1}'', LogInfoLineAnalytics.Count = 2, MinMilliseconds = 0,
       MaxMilliseconds = 0, AvgMilliseconds = (200, 2), TotalMilliseconds = 200,
       IsCollectionScan = False, IndexUsed = ''{ age: 1 }''\<rparr>]"
proof -
  have a: "opsMap_run [example_find_120, example_find_80] (Parse_key example_find_80) =
     Some (hd (OpsPatterns example_parsed))"
    by (simp add: example_keys example_run2 example_parsed_def)
  have b: "printLogsSummary_lines example_parsed =
     [\<lparr>LogInfoLineAnalytics.Namespace = ''db.users'', LogInfoLineAnalytics.Command = ''find'',
       QueryPattern = ''{age: 1}'', LogInfoLineAnalytics.Count = 2, MinMilliseconds = 0,
       MaxMilliseconds = 0, AvgMilliseconds = (200, 2), TotalMilliseconds = 200,
       IsCollectionScan = False, IndexUsed = ''{ age: 1 }''\<rparr>]"
    by (simp add: printLogsSummary_lines_def example_parsed_def
        ConverOpPerformanceDocumentToLogInfoLineAnalytics_def COLLSCAN_def)
  from a b show ?thesis ..
qed

section \<open>Properties of the cache artifact\<close>

lemma NewLogInfo_enc: "NewLogInfo ''mongod.log.enc'' '''' =
   \<lparr>OpsPatterns = [], OutputFilename = ''mongod.log.enc.enc'', SlowOps = [], collscan = False,
     filename = ''mongod.log.enc'', mongoInfo = '''', silent = False, verbose = False\<rparr>"
  by (simp add: NewLogInfo_def filepath_Base_def strings_HasSuffix_def Let_def suffix_def)

text \<open>
  C6 as stated fails: \<open>mongoInfo\<close> (the session and startup information) is not an
  exported field, so the artifact does not carry it. After \<open>mongod.log\<close> is parsed and its
  artifact \<open>mongod.log.enc\<close> is loaded into a new \<open>LogInfo\<close>, \<open>mongoInfo\<close> is empty.
\<close>

theorem cache_drops_mongoInfo:
  "Analyze_write example_parsed =
     (''mongod.log.enc'',
      \<lparr>gob_OpsPatterns = Some (OpsPatterns example_parsed), gob_OutputFilename = Some ''mongod.log.enc'',
        gob_SlowOps = Some (SlowOps example_parsed)\<rparr>) \<and>
   mongoInfo example_parsed = ''db version v4.0.0'' @ [CHR 0x0A] \<and>
   mongoInfo (Analyze_read (snd (Analyze_write example_parsed)) (NewLogInfo ''mongod.log.enc'' '''')) = ''''"
  by (simp add: Analyze_write_def Analyze_read_def gob_Encode_def gob_Decode_def NewLogInfo_enc
      example_parsed_def)

text \<open>
  C6, amended. Writing the artifact and loading it into a \<open>LogInfo\<close> made by \<open>NewLogInfo\<close>
  gives back the shape statistics and the slow-op list, and with them the same rendered
  records.
\<close>

theorem cache_round_trip_exported:
  "let li' = Analyze_read (snd (Analyze_write li)) (NewLogInfo fname exportType) in
     OpsPatterns li' = OpsPatterns li \<and> SlowOps li' = SlowOps li \<and>
     printLogsSummary_lines li' = printLogsSummary_lines li"
  by (simp add: Analyze_write_def Analyze_read_def gob_Encode_def gob_Decode_def NewLogInfo_def
      Let_def printLogsSummary_lines_def)

section \<open>Properties of the order of the report\<close>

lemma asc_key_ins:
  fixes key :: "'a \<Rightarrow> 'k::linorder"
  shows "sorted_wrt (\<lambda>a b. key a \<le> key b) ys \<Longrightarrow>
   sorted_wrt (\<lambda>a b. key a \<le> key b) (insertionSort_ins (\<lambda>a b. key b < key a) x ys)"
proof (induction ys)
  case Nil
  show ?case by simp
next
  case (Cons y ys)
  show ?case
  proof (cases "key y < key x")
    case True
    with Cons show ?thesis by (auto simp: set_insertionSort_ins)
  next
    case False
    then have "\<forall>z\<in>set ys. key x \<le> key z" using Cons.prems by auto
    with Cons.prems False show ?thesis by auto
  qed
qed

lemma asc_key_foldl:
  fixes key :: "'a \<Rightarrow> 'k::linorder"
  shows "sorted_wrt (\<lambda>a b. key a \<le> key b) acc \<Longrightarrow>
   sorted_wrt (\<lambda>a b. key a \<le> key b)
     (foldl (\<lambda>acc x. insertionSort_ins (\<lambda>a b. key b < key a) x acc) acc xs)"
  by (induction xs arbitrary: acc) (auto simp: asc_key_ins)

lemma insertionSort_key_spec:
  fixes key :: "'a \<Rightarrow> 'k::linorder"
  shows "sort_Slice_spec (\<lambda>a b. key b < key a) (insertionSort (\<lambda>a b. key b < key a))"
proof -
  have "sorted_wrt (\<lambda>a b. key a \<le> key b)
      (foldl (\<lambda>acc x. insertionSort_ins (\<lambda>a b. key b < key a) x acc) [] xs)" for xs
    by (rule asc_key_foldl) simp
  then have "sorted_wrt (\<lambda>a b. key b \<le> key a) (insertionSort (\<lambda>a b. key b < key a) xs)" for xs
    by (simp add: insertionSort_def sorted_wrt_rev)
  then show ?thesis
    by (simp add: sort_Slice_spec_def mset_insertionSort not_less)
qed

lemma OpsPatterns_less_key:
  "OpsPatterns_less fdiv = (\<lambda>a b. fdiv (TotalMilli b) (Count b) < fdiv (TotalMilli a) (Count a))"
  by (simp add: OpsPatterns_less_def fun_eq_iff)

lemma insertionSort_OpsPatterns_spec:
  fixes fdiv :: "goint \<Rightarrow> goint \<Rightarrow> 'f::linorder"
  shows "sort_Slice_spec (OpsPatterns_less fdiv) (insertionSort (OpsPatterns_less fdiv))"
  unfolding OpsPatterns_less_key
  by (rule insertionSort_key_spec [of "\<lambda>d. fdiv (TotalMilli d) (Count d)"])

lemma average_Conver:
  "average fdiv (ConverOpPerformanceDocumentToLogInfoLineAnalytics d) = fdiv (TotalMilli d) (Count d)"
  by (simp add: average_def ConverOpPerformanceDocumentToLogInfoLineAnalytics_def)

text \<open>
  C5. The rendered records stand in descending order of average latency, the average of a
  record being the quotient of its \<open>TotalMilliseconds\<close> by its \<open>Count\<close>; they are the
  records of the aggregated shapes, each once. This holds for every sort that keeps the
  promise of \<open>sort.Slice\<close> and for every order of the \<open>range\<close> loop.
\<close>

theorem report_sorted_by_average:
  fixes fdiv :: "goint \<Rightarrow> goint \<Rightarrow> 'f::linorder"
  assumes "sort_Slice_spec (OpsPatterns_less fdiv) srt"
  shows "let r = printLogsSummary_lines (Parse_OpsPatterns srt vals li) in
     sorted_wrt (\<lambda>a b. average fdiv b \<le> average fdiv a) r \<and>
     map (average fdiv) r = map (\<lambda>a. fdiv (TotalMilliseconds a) (LogInfoLineAnalytics.Count a)) r \<and>
     mset r = image_mset ConverOpPerformanceDocumentToLogInfoLineAnalytics (mset vals)"
proof -
  have s: "sorted_wrt (\<lambda>a b. fdiv (TotalMilli b) (Count b) \<le> fdiv (TotalMilli a) (Count a)) (srt vals)"
    using assms by (simp add: sort_Slice_spec_def OpsPatterns_less_def not_less)
  have m: "mset (srt vals) = mset vals"
    using assms by (simp add: sort_Slice_spec_def)
  have a: "sorted_wrt (\<lambda>a b. average fdiv b \<le> average fdiv a)
      (map ConverOpPerformanceDocumentToLogInfoLineAnalytics (srt vals))"
    using s by (simp add: sorted_wrt_map average_Conver)
  have b: "map (average fdiv) (map ConverOpPerformanceDocumentToLogInfoLineAnalytics (srt vals)) =
      map (\<lambda>a. fdiv (TotalMilliseconds a) (LogInfoLineAnalytics.Count a))
        (map ConverOpPerformanceDocumentToLogInfoLineAnalytics (srt vals))"
    by (simp add: average_def ConverOpPerformanceDocumentToLogInfoLineAnalytics_def)
  have c: "mset (map ConverOpPerformanceDocumentToLogInfoLineAnalytics (srt vals)) =
      image_mset ConverOpPerformanceDocumentToLogInfoLineAnalytics (mset vals)"
    using m by simp
  show ?thesis
    unfolding Let_def printLogsSummary_lines_def Parse_OpsPatterns_def
    using a b c by simp
qed

theorem report_sorted_by_average_witness:
  "sort_Slice_spec (OpsPatterns_less exact_quotient) (insertionSort (OpsPatterns_less exact_quotient)) \<and>
   map (average exact_quotient)
     (printLogsSummary_lines (Parse_OpsPatterns (insertionSort (OpsPatterns_less exact_quotient))
        (OpsPatterns example_parsed @ [example_scan_doc]) example_parsed)) = [300, 100] \<and>
   sorted_wrt (\<lambda>a b. average exact_quotient b \<le> average exact_quotient a)
     (printLogsSummary_lines (Parse_OpsPatterns (insertionSort (OpsPatterns_less exact_quotient))
        (OpsPatterns example_parsed @ [example_scan_doc]) example_parsed))"
proof -
  have run: "map (average exact_quotient)
     (printLogsSummary_lines (Parse_OpsPatterns (insertionSort (OpsPatterns_less exact_quotient))
        (OpsPatterns example_parsed @ [example_scan_doc]) example_parsed)) = [300, 100]"
    by (simp add: printLogsSummary_lines_def Parse_OpsPatterns_def insertionSort_def
        OpsPatterns_less_def exact_quotient_def example_parsed_def example_scan_doc_def average_Conver)
  from report_sorted_by_average [OF insertionSort_OpsPatterns_spec, of exact_quotient
      "OpsPatterns example_parsed @ [example_scan_doc]" example_parsed]
  have "sorted_wrt (\<lambda>a b. average exact_quotient b \<le> average exact_quotient a)
     (printLogsSummary_lines (Parse_OpsPatterns (insertionSort (OpsPatterns_less exact_quotient))
        (OpsPatterns example_parsed @ [example_scan_doc]) example_parsed))"
    by (simp add: Let_def)
  with insertionSort_OpsPatterns_spec [of exact_quotient] run show ?thesis by blast
qed

section \<open>Properties of the extraction\<close>

lemma strings_Index_Nil: "p \<noteq> [] \<Longrightarrow> strings_Index [] p = - 1"
  by (subst strings_Index.simps) simp

lemma removeInElements_Nil: "instr \<noteq> [] \<Longrightarrow> removeInElements [] instr = []"
  by (simp add: removeInElements_def strings_Index_Nil)

lemma Parse_removeIn_Nil: "Parse_removeIn [] = []"
  by (simp add: Parse_removeIn_def removeInElements_Nil)

lemma Parse_regex_Nil: "Parse_regex [] = []"
  by (simp add: Parse_regex_def strings_Index_Nil)

lemma strings_ReplaceAll_Nil: "strings_ReplaceAll [] old new = []"
  by (subst strings_ReplaceAll.simps) simp

lemma reorderFilterFields_short: "length str < 2 \<Longrightarrow> reorderFilterFields E str = Inl SliceBoundsOutOfRange"
  by (simp add: reorderFilterFields_def)

lemma hasFilter_count: "hasFilter ''count''" "\<not> hasFilter ''distinct''"
  by (simp_all add: hasFilter_def filters_def)

text \<open>
  C7 fails on the code for \<open>count\<close>. A \<open>count\<close> line whose body has no \<open>query: \<close> field
  (\<open>getDocByField\<close> gives the empty string) is not skipped: \<open>filter\<close> becomes the empty
  string, the passes of lines 468 to 492 leave it empty (no pattern of lines 484 to 491
  matches in an empty string), and \<open>reorderFilterFields\<close> panics on its first statement,
  which ends the run. A \<open>distinct\<close> line is skipped, as \<open>distinct\<close> is not in \<open>filters\<close>.
\<close>

theorem count_without_query_panics:
  assumes "getDocByField E filter0 ''query: '' = ''''"
    and "re_scalar E '''' = ''''" and "re_shardVersion E '''' = ''''"
    and "re_ident E '''' = ''''" and "re_regex E '''' = ''''"
  shows "Parse_extract E ''count'' filter0 r4 scan = Some ('''', '''') \<and>
         Parse_filter E ''count'' filter0 r4 scan = Some (Inl SliceBoundsOutOfRange) \<and>
         Parse_filter E ''distinct'' filter0 r4 scan = None"
proof -
  have ex: "Parse_extract E ''count'' filter0 r4 scan = Some ('''', '''')"
    using assms(1) by (simp add: Parse_extract_def hasFilter_count)
  have canon: "Parse_canon E '''' = Inl SliceBoundsOutOfRange"
    using assms(2-5)
    by (simp add: Parse_canon_def Parse_removeIn_Nil Parse_regex_Nil strings_ReplaceAll_Nil
        reorderFilterFields_short)
  have "Parse_extract E ''distinct'' filter0 r4 scan = None"
    by (simp add: Parse_extract_def hasFilter_count)
  with ex canon show ?thesis
    by (simp add: Parse_filter_def)
qed

theorem count_without_query_panics_witness:
  "getDocByField extern_none ''{ count: 1 }'' ''query: '' = '''' \<and>
   re_scalar extern_none '''' = '''' \<and> re_shardVersion extern_none '''' = '''' \<and>
   re_ident extern_none '''' = '''' \<and> re_regex extern_none '''' = '''' \<and>
   Parse_filter extern_none ''count'' ''{ count: 1 }'' ''count { count: 1 } planSummary: COUNT'' '''' =
     Some (Inl SliceBoundsOutOfRange)"
proof -
  have h: "getDocByField extern_none ''{ count: 1 }'' ''query: '' = ''''"
    "re_scalar extern_none '''' = ''''" "re_shardVersion extern_none '''' = ''''"
    "re_ident extern_none '''' = ''''" "re_regex extern_none '''' = ''''"
    by (simp_all add: getDocByField_def extern_none_def)
  from count_without_query_panics [OF h] h show ?thesis by simp
qed

section \<open>Properties of the truncation of enumerations\<close>

lemma ascii_of_char: "\<not> digit7 c \<Longrightarrow> (of_char c :: nat) < 128"
  by (cases c) (simp add: of_char_def)

lemma utf8_width_ascii: "\<not> digit7 c \<Longrightarrow> utf8_width (c # s) = 1"
  using ascii_of_char [of c] by (simp add: Let_def utf8_width.simps)

lemma utf8_runes_ascii:
  "\<forall>c\<in>set s. \<not> digit7 c \<Longrightarrow> utf8_runes (s @ t) = map (\<lambda>c. [c]) s @ utf8_runes t"
proof (induction s)
  case Nil
  show ?case by simp
next
  case (Cons c s)
  then have "utf8_width (c # s @ t) = 1" by (intro utf8_width_ascii) simp
  then have "utf8_runes ((c # s) @ t) = [c] # utf8_runes (s @ t)"
    by (subst utf8_runes.simps) simp
  with Cons show ?case by simp
qed

lemma loop_skip:
  "cnt + int (length xs) \<le> idx \<Longrightarrow>
   removeInElements_loop (xs @ rs) idx cnt = removeInElements_loop rs idx (cnt + int (length xs))"
proof (induction xs arbitrary: cnt)
  case Nil
  show ?case by simp
next
  case (Cons x xs)
  then have "cnt < idx" by simp
  moreover have "removeInElements_loop (xs @ rs) idx (cnt + 1) =
      removeInElements_loop rs idx (cnt + 1 + int (length xs))"
    using Cons.prems by (intro Cons.IH) simp
  ultimately show ?case by (simp add: algebra_simps)
qed

lemma loop_scan:
  "idx \<le> cnt \<Longrightarrow> CHR '']'' \<notin> set body \<Longrightarrow>
   removeInElements_loop (map (\<lambda>c. [c]) body @ '']'' # rs) idx cnt = cnt + int (length body)"
proof (induction body arbitrary: cnt)
  case Nil
  then show ?case by simp
next
  case (Cons c body)
  have "removeInElements_loop (map (\<lambda>c. [c]) body @ '']'' # rs) idx (cnt + 1) = cnt + 1 + int (length body)"
    using Cons.prems by (intro Cons.IH) auto
  with Cons.prems show ?case by auto
qed


lemma drop_last: "X \<noteq> [] \<Longrightarrow> drop (length X - 1) (X @ r) = last X # r"
proof -
  assume "X \<noteq> []"
  then have "X = butlast X @ [last X]" by simp
  then have "X @ r = butlast X @ (last X # r)" by (metis append.assoc append_Cons append_Nil)
  moreover have "length (butlast X) = length X - 1" by simp
  ultimately show ?thesis by (metis append_eq_conv_conj)
qed

lemma removeInElements_first:
  assumes idx: "strings_Index (pre @ instr @ body @ CHR '']'' # post) instr = int (length pre)"
    and ascii: "\<forall>c\<in>set (pre @ instr @ body). \<not> digit7 c"
    and nb: "CHR '']'' \<notin> set body" and ne: "instr \<noteq> []"
  shows "removeInElements (pre @ instr @ body @ CHR '']'' # post) instr =
           pre @ butlast instr @ ''...'' @ last (instr @ body) # CHR '']'' # post"
proof -
  let ?str = "pre @ instr @ body @ CHR '']'' # post"
  let ?idx = "int (length pre) + int (length instr) - 1"
  have len: "length instr \<ge> 1" using ne by (cases instr) auto
  have r1: "utf8_runes (CHR '']'' # post) = '']'' # utf8_runes post"
    using utf8_runes_ascii [of "'']''" post] by simp
  have "utf8_runes ((pre @ instr @ body) @ CHR '']'' # post) =
      map (\<lambda>c. [c]) (pre @ instr @ body) @ utf8_runes (CHR '']'' # post)"
    using ascii by (rule utf8_runes_ascii)
  then have runes: "utf8_runes ?str =
      map (\<lambda>c. [c]) (pre @ instr) @ (map (\<lambda>c. [c]) body @ '']'' # utf8_runes post)"
    using r1 by simp
  have "removeInElements_loop (utf8_runes ?str) ?idx (- 1) =
      removeInElements_loop (map (\<lambda>c. [c]) body @ '']'' # utf8_runes post) ?idx
        (- 1 + int (length (map (\<lambda>c. [c]) (pre @ instr))))"
    unfolding runes by (rule loop_skip) simp
  also have "\<dots> = removeInElements_loop (map (\<lambda>c. [c]) body @ '']'' # utf8_runes post) ?idx ?idx"
    by (simp add: algebra_simps)
  also have "\<dots> = ?idx + int (length body)"
    using nb by (intro loop_scan) auto
  finally have epos: "removeInElements_loop (utf8_runes ?str) ?idx (- 1) = ?idx + int (length body)" .
  have nidx: "nat ?idx = length pre + (length instr - 1)"
    using len by simp
  have nepos: "nat (?idx + int (length body)) = length (pre @ instr @ body) - 1"
    using len by simp
  have tk: "take (length pre + (length instr - 1)) ?str = pre @ butlast instr"
    using len by (simp add: butlast_conv_take)
  have X: "pre @ instr @ body \<noteq> []" using ne by simp
  have dr: "drop (length (pre @ instr @ body) - 1) ?str = last (instr @ body) # CHR '']'' # post"
    using drop_last [OF X, of "CHR '']'' # post"] ne by simp
  have pos: "?idx + int (length body) \<noteq> - 1" using len by simp
  have "removeInElements ?str instr =
      take (nat ?idx) ?str @ ''...'' @ drop (nat (?idx + int (length body))) ?str"
    using idx epos pos by (simp add: removeInElements_def Let_def)
  then show ?thesis
    using tk dr unfolding nidx nepos by simp
qed

lemma strings_Index_prefix: "strings_Index (p @ r) p = 0"
  by (subst strings_Index.simps) simp

lemma strings_Index_Cons:
  "\<not> prefix p (c # s) \<Longrightarrow>
   strings_Index (c # s) p = (if strings_Index s p < 0 then - 1 else strings_Index s p + 1)"
  by (subst strings_Index.simps) (simp add: Let_def)

lemma shift_shift: "shift n (shift m i) = shift (n + m) i"
  by (simp add: shift_def)

lemma strings_Index_Cons': "\<not> prefix p (c # s) \<Longrightarrow> strings_Index (c # s) p = shift 1 (strings_Index s p)"
  by (simp add: strings_Index_Cons shift_def)

lemma marker_Cons: "marker k = CHR ''$'' # tl (marker k)"
  by (simp add: marker_def)

lemma prefix_append_cases: "prefix xs (ys @ zs) \<Longrightarrow> prefix xs ys \<or> prefix ys xs"
  by (auto simp: prefix_def append_eq_append_conv2)

lemma clear_for_step:
  assumes "clear_for k (c # t)"
  shows "\<not> prefix (marker k) ((c # t) @ r)"
proof (cases "c = CHR ''$''")
  case True
  then have "\<not> prefix (c # t) (marker k)" "\<not> prefix (marker k) (c # t)"
    using assms by auto
  then show ?thesis using prefix_append_cases [of "marker k" "c # t" r] by blast
next
  case False
  then show ?thesis by (subst marker_Cons) simp
qed

lemma Index_clear:
  "clear_for k a \<Longrightarrow>
   strings_Index (a @ r) (marker k) = shift (length a) (strings_Index r (marker k))"
proof (induction a)
  case Nil
  show ?case using strings_Index_ge [of r "marker k"] by (auto simp: shift_def)
next
  case (Cons c a)
  have "\<not> prefix (marker k) (c # (a @ r))"
    using clear_for_step [OF Cons.prems, of r] by simp
  then have "strings_Index (c # (a @ r)) (marker k) = shift 1 (strings_Index (a @ r) (marker k))"
    by (rule strings_Index_Cons')
  with Cons show ?case by (simp add: shift_shift)
qed

lemma clear_for_append: "clear_for k a \<Longrightarrow> clear_for k b \<Longrightarrow> clear_for k (a @ b)"
proof (induction a)
  case Nil
  then show ?case by simp
next
  case (Cons c a)
  have "\<not> prefix ((c # a) @ b) (marker k)" if "c = CHR ''$''"
  proof
    assume "prefix ((c # a) @ b) (marker k)"
    then have "prefix (c # a) (marker k)" by (metis append_prefixD)
    with that Cons.prems(1) show False by simp
  qed
  moreover have "\<not> prefix (marker k) ((c # a) @ b)"
    using Cons.prems(1) by (rule clear_for_step)
  ultimately show ?case using Cons by auto
qed

lemma clear_for_marker: "j \<noteq> k \<Longrightarrow> clear_for k (marker j)"
  by (cases k; cases j) (simp_all add: marker_def)

lemma clear_for_Done: "clear_for k (butlast (marker j) @ ''... ]'')"
  by (cases k; cases j) (simp_all add: marker_def)

lemma clear_for_bracket: "clear_for k '']''"
  by simp

lemma seg_text_ascii: "seg_ok s \<Longrightarrow> \<forall>c\<in>set (seg_text s). \<not> digit7 c"
  by (cases s) (auto simp: plain_def marker_def)

lemma flat_ascii: "\<forall>s\<in>set segs. seg_ok s \<Longrightarrow> \<forall>c\<in>set (flat segs). \<not> digit7 c"
  using seg_text_ascii by (auto simp: flat_def)

lemma seg_text_clear:
  assumes "seg_ok s" and "\<not> is_Enum k s"
  shows "clear_for k (seg_text s)"
proof (cases s)
  case (Txt t)
  then show ?thesis using assms(1) by (cases k) (simp_all add: plain_def)
next
  case (Enum j b)
  then have "j \<noteq> k" using assms(2) by simp
  then have "clear_for k (marker j)" by (rule clear_for_marker)
  moreover have "clear_for k b" using assms(1) Enum by (cases k) (simp_all add: plain_def)
  ultimately have "clear_for k (marker j @ b @ '']'')"
    using clear_for_bracket by (intro clear_for_append)
  then show ?thesis using Enum by simp
next
  case (Done j)
  then show ?thesis using clear_for_Done by simp
qed

lemma flat_clear:
  "\<forall>s\<in>set segs. seg_ok s \<and> \<not> is_Enum k s \<Longrightarrow> clear_for k (flat segs)"
proof (induction segs)
  case Nil
  show ?case by (simp add: flat_def)
next
  case (Cons s segs)
  then have "clear_for k (seg_text s)" "clear_for k (flat segs)"
    by (auto intro: seg_text_clear)
  then have "clear_for k (seg_text s @ flat segs)" by (rule clear_for_append)
  then show ?case by (simp add: flat_def)
qed

lemma Index_flat:
  "\<forall>s\<in>set segs. seg_ok s \<and> \<not> is_Enum k s \<Longrightarrow>
   strings_Index (flat segs @ r) (marker k) = shift (length (flat segs)) (strings_Index r (marker k))"
  by (intro Index_clear flat_clear)

lemma trunc_first_none: "\<forall>s\<in>set segs. \<not> is_Enum k s \<Longrightarrow> trunc_first k segs = segs"
  by (induction k segs rule: trunc_first.induct) auto

lemma trunc_first_split:
  "\<forall>s\<in>set before. \<not> is_Enum k s \<Longrightarrow>
   trunc_first k (before @ Enum k b # after) = before @ Done k # after"
  by (induction k before rule: trunc_first.induct) auto

lemma Enum_split:
  "(\<forall>s\<in>set segs. \<not> is_Enum k s) \<or>
   (\<exists>before b after. segs = before @ Enum k b # after \<and> (\<forall>s\<in>set before. \<not> is_Enum k s))"
proof (induction segs)
  case Nil
  show ?case by simp
next
  case (Cons s segs)
  show ?case
  proof (cases "is_Enum k s")
    case True
    then obtain b where "s = Enum k b" by (cases s) auto
    then have "s # segs = [] @ Enum k b # segs \<and> (\<forall>s\<in>set []. \<not> is_Enum k s)" by simp
    then show ?thesis by blast
  next
    case False
    from Cons show ?thesis
    proof
      assume "\<forall>s\<in>set segs. \<not> is_Enum k s"
      with False show ?thesis by simp
    next
      assume "\<exists>before b after. segs = before @ Enum k b # after \<and> (\<forall>s\<in>set before. \<not> is_Enum k s)"
      then obtain before b after where
        "segs = before @ Enum k b # after" "\<forall>s\<in>set before. \<not> is_Enum k s" by blast
      with False have "s # segs = (s # before) @ Enum k b # after \<and> (\<forall>x\<in>set (s # before). \<not> is_Enum k x)"
        by simp
      then show ?thesis by blast
    qed
  qed
qed

lemma marker_props: "marker k \<noteq> []" "last (marker k) = CHR '' ''" "\<forall>c\<in>set (marker k). \<not> digit7 c"
  by (cases k; simp add: marker_def)+

lemma removeInElements_segs:
  assumes ok: "\<forall>s\<in>set segs. seg_ok s"
  shows "removeInElements (flat segs) (marker k) = flat (trunc_first k segs)"
  using Enum_split [of segs k]
proof
  assume none: "\<forall>s\<in>set segs. \<not> is_Enum k s"
  have "strings_Index (flat segs @ []) (marker k) = shift (length (flat segs)) (strings_Index [] (marker k))"
    using ok none by (intro Index_flat) auto
  moreover have "strings_Index [] (marker k) = - 1"
    using marker_props(1) [of k] by (subst strings_Index.simps) simp
  ultimately have "strings_Index (flat segs) (marker k) < 0"
    by (simp add: shift_def)
  then show ?thesis
    using none by (simp add: removeInElements_def trunc_first_none)
next
  assume "\<exists>before b after. segs = before @ Enum k b # after \<and> (\<forall>s\<in>set before. \<not> is_Enum k s)"
  then obtain before b after where
    segs: "segs = before @ Enum k b # after" and nb: "\<forall>s\<in>set before. \<not> is_Enum k s" by blast
  let ?pre = "flat before" and ?post = "flat after"
  have str: "flat segs = ?pre @ marker k @ b @ CHR '']'' # ?post"
    by (simp add: segs flat_def)
  have okb: "\<forall>s\<in>set before. seg_ok s" and oke: "seg_ok (Enum k b)"
    using ok segs by auto
  have "strings_Index (?pre @ (marker k @ b @ CHR '']'' # ?post)) (marker k) =
      shift (length ?pre) (strings_Index (marker k @ b @ CHR '']'' # ?post) (marker k))"
    using okb nb by (intro Index_flat) auto
  then have idx: "strings_Index (?pre @ marker k @ b @ CHR '']'' # ?post) (marker k) = int (length ?pre)"
    by (simp add: strings_Index_prefix shift_def)
  have ascii: "\<forall>c\<in>set (?pre @ marker k @ b). \<not> digit7 c"
    using flat_ascii [OF okb] marker_props(3) [of k] oke by (auto simp: plain_def)
  have nbr: "CHR '']'' \<notin> set b" using oke by simp
  have "removeInElements (?pre @ marker k @ b @ CHR '']'' # ?post) (marker k) =
      ?pre @ butlast (marker k) @ ''...'' @ last (marker k @ b) # CHR '']'' # ?post"
    using idx ascii nbr marker_props(1) by (rule removeInElements_first)
  moreover have "last (marker k @ b) = CHR '' ''"
    using oke marker_props(2) [of k] by (cases "b = []") auto
  ultimately have "removeInElements (flat segs) (marker k) =
      ?pre @ butlast (marker k) @ ''... ]'' @ ?post"
    by (simp add: str)
  moreover have "flat (trunc_first k segs) = ?pre @ butlast (marker k) @ ''... ]'' @ ?post"
    by (simp add: segs trunc_first_split [OF nb] flat_def)
  ultimately show ?thesis by simp
qed

lemma trunc_first_ok: "\<forall>s\<in>set segs. seg_ok s \<Longrightarrow> \<forall>s\<in>set (trunc_first k segs). seg_ok s"
  by (induction k segs rule: trunc_first.induct) auto

lemma done_of_id: "\<not> is_Enum k s \<Longrightarrow> done_of k s = s"
  by (cases s) auto

lemma is_Enum_done_of: "j \<noteq> k \<Longrightarrow> is_Enum j (done_of k s) = is_Enum j s"
  by (cases s) auto

lemma trunc_first_one:
  "length (filter (is_Enum k) segs) \<le> 1 \<Longrightarrow> trunc_first k segs = map (done_of k) segs"
proof (induction k segs rule: trunc_first.induct)
  case (2 k nin body ss)
  show ?case
  proof (cases "nin = k")
    case True
    with 2 have "filter (is_Enum k) ss = []" by simp
    then have "\<forall>s\<in>set ss. \<not> is_Enum k s" by (simp add: filter_empty_conv)
    then have "map (done_of k) ss = ss"
      by (induction ss) (auto simp: done_of_id)
    with True show ?thesis by simp
  next
    case False
    with 2 show ?thesis by simp
  qed
qed auto

lemma trunc_first_two:
  "length (filter (is_Enum k) segs) \<le> 2 \<Longrightarrow> trunc_first k (trunc_first k segs) = map (done_of k) segs"
proof (induction k segs rule: trunc_first.induct)
  case (2 k nin body ss)
  show ?case
  proof (cases "nin = k")
    case True
    with 2 have "length (filter (is_Enum k) ss) \<le> 1" by simp
    then have "trunc_first k ss = map (done_of k) ss" by (rule trunc_first_one)
    with True show ?thesis by simp
  next
    case False
    with 2 show ?thesis by simp
  qed
qed auto

lemma trunc_first_commute:
  "trunc_first j (trunc_first k segs) = trunc_first k (trunc_first j segs)"
  by (induction k segs rule: trunc_first.induct) auto

lemma filter_done_of:
  "j \<noteq> k \<Longrightarrow> length (filter (is_Enum j) (map (done_of k) segs)) = length (filter (is_Enum j) segs)"
  by (induction segs) (auto simp: is_Enum_done_of)

lemma done_of_both: "done_of True (done_of False s) = seg_done s"
  by (cases s) auto


lemma Parse_removeIn_segs:
  assumes ok: "\<forall>s\<in>set segs. seg_ok s"
    and n_in: "length (filter (is_Enum False) segs) \<le> 2"
    and n_nin: "length (filter (is_Enum True) segs) \<le> 2"
  shows "Parse_removeIn (flat segs) = flat (map seg_done segs)"
proof -
  let ?s1 = "trunc_first False segs"
  let ?s2 = "trunc_first True ?s1"
  let ?s3 = "trunc_first False ?s2"
  let ?s4 = "trunc_first True ?s3"
  have ok1: "\<forall>s\<in>set ?s1. seg_ok s" using ok by (rule trunc_first_ok)
  have ok2: "\<forall>s\<in>set ?s2. seg_ok s" using ok1 by (rule trunc_first_ok)
  have ok3: "\<forall>s\<in>set ?s3. seg_ok s" using ok2 by (rule trunc_first_ok)
  have m: "''$in: [ '' = marker False" "''$nin: [ '' = marker True"
    by (simp_all add: marker_def)
  have "Parse_removeIn (flat segs) = flat ?s4"
    unfolding Parse_removeIn_def Let_def m
    by (simp only: removeInElements_segs [OF ok] removeInElements_segs [OF ok1]
        removeInElements_segs [OF ok2] removeInElements_segs [OF ok3])
  moreover have "?s4 = map seg_done segs"
  proof -
    have "?s3 = trunc_first True (trunc_first False ?s1)"
      by (rule trunc_first_commute)
    then have "?s4 = trunc_first True (trunc_first True (trunc_first False (trunc_first False segs)))"
      by simp
    also have "trunc_first False (trunc_first False segs) = map (done_of False) segs"
      using n_in by (rule trunc_first_two)
    also have "trunc_first True (trunc_first True (map (done_of False) segs)) =
        map (done_of True) (map (done_of False) segs)"
    proof (rule trunc_first_two)
      have ne: "True \<noteq> False" by simp
      show "length (filter (is_Enum True) (map (done_of False) segs)) \<le> 2"
        unfolding filter_done_of [OF ne] by (rule n_nin)
    qed
    also have "\<dots> = map seg_done segs"
      by (simp add: done_of_both)
    finally show ?thesis .
  qed
  ultimately show ?thesis by simp
qed

text \<open>
  C2 as stated fails: lines 468 to 471 call \<open>removeInElements\<close> twice for \<open>$in\<close> and twice
  for \<open>$nin\<close>, and each call rewrites one enumeration. In a filter with three \<open>$in\<close>
  enumerations the third keeps its elements, so two filters that differ only there keep
  different texts.
\<close>

theorem Parse_removeIn_third_enumeration:
  "Parse_removeIn ''{ a: { $in: [ 1 ] }, b: { $in: [ 2 ] }, c: { $in: [ 3, 4 ] } }'' =
     ''{ a: { $in: [... ] }, b: { $in: [... ] }, c: { $in: [ 3, 4 ] } }'' \<and>
   Parse_removeIn ''{ a: { $in: [ 1 ] }, b: { $in: [ 2 ] }, c: { $in: [ 5 ] } }'' =
     ''{ a: { $in: [... ] }, b: { $in: [... ] }, c: { $in: [ 5 ] } }''"
proof -
  have m: "''$in: [ '' = marker False" "''$nin: [ '' = marker True"
    by (simp_all add: marker_def)
  have run: "Parse_removeIn (flat [Txt ''{ a: { '', Enum False ''1 '', Txt '' }, b: { '', Enum False ''2 '',
        Txt '' }, c: { '', Enum False body, Txt '' } }'']) =
      flat [Txt ''{ a: { '', Done False, Txt '' }, b: { '', Done False, Txt '' }, c: { '', Enum False body,
        Txt '' } }'']"
    if "seg_ok (Enum False body)" for body
    unfolding Parse_removeIn_def Let_def m
    using that by (simp add: removeInElements_segs plain_def)
  have "seg_ok (Enum False ''3, 4 '')" "seg_ok (Enum False ''5 '')"
    by (simp_all add: plain_def)
  from run [OF this(1)] run [OF this(2)] show ?thesis
    by (simp add: flat_def marker_def)
qed

text \<open>
  C2, amended. For a filter made of plain text (ASCII text in which no marker \<open>$in: [ \<close>
  or \<open>$nin: [ \<close> begins) and of at most two \<open>$in\<close> and at most two \<open>$nin\<close> enumerations
  (with plain bodies without \<open>]\<close>, empty or ending with a space), lines 468 to 471 rewrite
  every enumeration to \<open>$in: [... ]\<close> or \<open>$nin: [... ]\<close>, whatever its elements and their
  number. Two such filters that differ only in the bodies of their enumerations get the
  same text there, and so the same canonical filter at line 493.
\<close>

theorem Parse_removeIn_truncates:
  assumes ok: "\<forall>s\<in>set segs. seg_ok s" and ok': "\<forall>s\<in>set segs'. seg_ok s"
    and n: "length (filter (is_Enum False) segs) \<le> 2" "length (filter (is_Enum True) segs) \<le> 2"
    and n': "length (filter (is_Enum False) segs') \<le> 2" "length (filter (is_Enum True) segs') \<le> 2"
    and same: "map seg_done segs' = map seg_done segs"
  shows "Parse_removeIn (flat segs) = flat (map seg_done segs) \<and>
         Parse_removeIn (flat segs') = Parse_removeIn (flat segs) \<and>
         Parse_canon E (flat segs') = Parse_canon E (flat segs)"
proof -
  have a: "Parse_removeIn (flat segs) = flat (map seg_done segs)"
    using ok n by (rule Parse_removeIn_segs)
  have "Parse_removeIn (flat segs') = flat (map seg_done segs')"
    using ok' n' by (rule Parse_removeIn_segs)
  with a same have b: "Parse_removeIn (flat segs') = Parse_removeIn (flat segs)" by simp
  then have "Parse_canon E (flat segs') = Parse_canon E (flat segs)"
    by (simp add: Parse_canon_def)
  with a b show ?thesis by simp
qed

theorem Parse_removeIn_truncates_witness:
  "Parse_removeIn ''{ a: { $in: [ 1, 2, 3 ] }, b: { $nin: [ ] }, c: { $gt: 5 } }'' =
     ''{ a: { $in: [... ] }, b: { $nin: [... ] }, c: { $gt: 5 } }'' \<and>
   Parse_removeIn ''{ a: { $in: [ 7 ] }, b: { $nin: [ 8, 9 ] }, c: { $gt: 5 } }'' =
     Parse_removeIn ''{ a: { $in: [ 1, 2, 3 ] }, b: { $nin: [ ] }, c: { $gt: 5 } }'' \<and>
   Parse_canon extern_none ''{ a: { $in: [ 7 ] }, b: { $nin: [ 8, 9 ] }, c: { $gt: 5 } }'' =
     Parse_canon extern_none ''{ a: { $in: [ 1, 2, 3 ] }, b: { $nin: [ ] }, c: { $gt: 5 } }''"
proof -
  let ?segs = "[Txt ''{ a: { '', Enum False ''1, 2, 3 '', Txt '' }, b: { '', Enum True '''', Txt '' }, c: { $gt: 5 } }'']"
  let ?segs' = "[Txt ''{ a: { '', Enum False ''7 '', Txt '' }, b: { '', Enum True ''8, 9 '', Txt '' }, c: { $gt: 5 } }'']"
  have h: "\<forall>s\<in>set ?segs. seg_ok s" "\<forall>s\<in>set ?segs'. seg_ok s"
    "length (filter (is_Enum False) ?segs) \<le> 2" "length (filter (is_Enum True) ?segs) \<le> 2"
    "length (filter (is_Enum False) ?segs') \<le> 2" "length (filter (is_Enum True) ?segs') \<le> 2"
    "map seg_done ?segs' = map seg_done ?segs"
    by (simp_all add: plain_def marker_def)
  from Parse_removeIn_truncates [OF h, of extern_none] show ?thesis
    by (simp add: flat_def marker_def)
qed

end
